theory Spec2Isabelle
  imports Main "HOL-Library.Char_ord" "HOL-Library.List_Lexorder" "HOL-Library.Option_ord"
    "HOL-Library.Multiset"
begin

section \<open>Python values shared by both programs\<close>

text \<open>
  Python \<open>str\<close> is modelled as \<^typ>\<open>string\<close>. A character outside ASCII stands as the
  bytes of its UTF-8 encoding, so the sentinel name of \<open>get_app_store.py\<close> (two CJK
  characters) is six bytes. \<open>str.isdigit\<close> and the whitespace that \<open>int\<close> strips are
  modelled on ASCII.

  A \<open>dict\<close> is an association list in insertion order (a key occurs once; a lookup takes
  the first binding). The exceptions the two programs can raise are values of \<open>exn\<close>.
\<close>

datatype exn =
    KeyError string
  | ValueError string
  | TypeError
  | AttributeError
  | OverflowError
  | RequestException string
  | OtherException string
  | JSONDecodeError
  | FileNotFoundError string
  | OperationalError string
  | IntegrityError string
  | InterfaceError

type_synonym app_info = "(string \<times> string) list"

definition isdigit :: "char \<Rightarrow> bool" where
  "isdigit c = (CHR ''0'' \<le> c \<and> c \<le> CHR ''9'')"

definition isspace :: "char \<Rightarrow> bool" where
  "isspace c = (c = CHR '' '' \<or> (CHR 0x09 \<le> c \<and> c \<le> CHR 0x0D) \<or> (CHR 0x1C \<le> c \<and> c \<le> CHR 0x1F))"

definition strip :: "string \<Rightarrow> string" where
  "strip s = rev (dropWhile isspace (rev (dropWhile isspace s)))"

definition int_space :: "char \<Rightarrow> bool" where
  "int_space c = (c = CHR '' '' \<or> (CHR 0x09 \<le> c \<and> c \<le> CHR 0x0D))"

definition digit_val :: "char \<Rightarrow> nat" where
  "digit_val c = of_char c - 48"

text \<open>
  \<open>int(s)\<close> for a \<open>str\<close>, base 10: surrounding whitespace is dropped (blank, tab, line
  feed, vertical tab, form feed, carriage return; not the separators \<open>0x1C\<close> to \<open>0x1F\<close>
  that \<open>str.strip\<close> also drops), one sign is allowed, then decimal digits, where single
  underscores may stand between two digits. Anything else, the empty string included,
  raises \<open>ValueError\<close>.
\<close>

fun int_digits :: "nat \<Rightarrow> string \<Rightarrow> nat option" where
  "int_digits acc [] = Some acc"
| "int_digits acc [c] = (if isdigit c then Some (10 * acc + digit_val c) else None)"
| "int_digits acc (c # d # cs) =
     (if isdigit c then int_digits (10 * acc + digit_val c) (d # cs)
      else if c = CHR ''_'' \<and> isdigit d then int_digits (10 * acc + digit_val d) cs
      else None)"

definition int_body :: "string \<Rightarrow> nat option" where
  "int_body s = (case s of [] \<Rightarrow> None
                 | c # cs \<Rightarrow> if isdigit c then int_digits (digit_val c) cs else None)"

definition py_int :: "string \<Rightarrow> exn + int" where
  "py_int s =
     (let t = rev (dropWhile int_space (rev (dropWhile int_space s)));
          neg = (t \<noteq> [] \<and> hd t = CHR ''-'');
          u = (if t \<noteq> [] \<and> (hd t = CHR ''-'' \<or> hd t = CHR ''+'') then tl t else t)
      in case int_body u of
           None \<Rightarrow> Inl (ValueError s)
         | Some n \<Rightarrow> Inr (if neg then - int n else int n))"

section \<open>get\_app\_store.py: ranking and sorting\<close>

text \<open>
  \<open>sorted(app_infos, key=lambda x: int(x['ranking']))\<close>. The keys are computed for
  every element, in order, before anything is compared: the first element whose key
  raises (\<open>KeyError\<close> for a missing field, \<open>ValueError\<close> from \<open>int\<close>) ends the call.
  \<open>sorted\<close> is stable; \<^const>\<open>sort_key\<close> is the stable insertion sort of the library.
\<close>

definition ranking_key :: "app_info \<Rightarrow> exn + int" where
  "ranking_key x = (case map_of x ''ranking'' of
                      None \<Rightarrow> Inl (KeyError ''ranking'')
                    | Some r \<Rightarrow> py_int r)"

fun decorate :: "app_info list \<Rightarrow> exn + (int \<times> app_info) list" where
  "decorate [] = Inr []"
| "decorate (x # xs) =
     (case ranking_key x of
        Inl e \<Rightarrow> Inl e
      | Inr k \<Rightarrow> (case decorate xs of Inl e \<Rightarrow> Inl e | Inr kxs \<Rightarrow> Inr ((k, x) # kxs)))"

definition sort_apps_by_ranking :: "app_info list \<Rightarrow> exn + app_info list" where
  "sort_apps_by_ranking app_infos =
     (case decorate app_infos of
        Inl e \<Rightarrow> Inl e
      | Inr kxs \<Rightarrow> Inr (map snd (sort_key fst kxs)))"

section \<open>get\_app\_store.py: the parsed page and the two extractions\<close>

text \<open>
  The document that \<open>BeautifulSoup(response.text, 'html.parser')\<close> returns is a tree of
  tags and strings. A tag carries its name, the values of its \<open>class\<close> attribute and
  its children. \<open>soup.find(name, class_=c)\<close> is the first descendant in document order
  with that name and with \<open>c\<close> among its classes, or \<open>None\<close>; \<open>get_text()\<close> joins the
  strings below a tag, and \<open>get_text(strip=True)\<close> strips each one and skips those that
  become empty.
\<close>

datatype node = NavigableString string | Tag string "string list" "node list"

fun descendants :: "node \<Rightarrow> node list" where
  "descendants (NavigableString s) = []"
| "descendants (Tag n cs kids) = concat (map (\<lambda>k. k # descendants k) kids)"

fun is_tag :: "string \<Rightarrow> string \<Rightarrow> node \<Rightarrow> bool" where
  "is_tag name c (NavigableString s) = False"
| "is_tag name c (Tag n cs kids) = (n = name \<and> c \<in> set cs)"

definition find_tag :: "node \<Rightarrow> string \<Rightarrow> string \<Rightarrow> node option" where
  "find_tag soup name c = List.find (is_tag name c) (descendants soup)"

fun string_of :: "node \<Rightarrow> string list" where
  "string_of (NavigableString s) = [s]"
| "string_of (Tag n cs kids) = []"

definition get_text :: "bool \<Rightarrow> node \<Rightarrow> string" where
  "get_text strp el =
     (let ss = concat (map string_of (descendants el))
      in concat (if strp then filter (\<lambda>s. s \<noteq> []) (map strip ss) else ss))"

definition unknown_name :: string where
  "unknown_name = [CHR 0xE6, CHR 0x9C, CHR 0xAA, CHR 0xE7, CHR 0x9F, CHR 0xA5]"

text \<open>
  \<open>_get_app_name\<close>: \<open>find\<close> returning \<open>None\<close> makes \<open>.get_text\<close> raise \<open>AttributeError\<close>,
  which the function catches.
\<close>

definition get_app_name :: "node \<Rightarrow> string" where
  "get_app_name soup =
     (case find_tag soup ''h1'' ''product-header__title'' of
        Some el \<Rightarrow> get_text True el
      | None \<Rightarrow> unknown_name)"

text \<open>\<open>_get_app_ranking\<close>: a tag is always true in \<open>if ranking_text:\<close>.\<close>

definition get_app_ranking :: "node \<Rightarrow> string" where
  "get_app_ranking soup =
     (case find_tag soup ''a'' ''inline-list__item'' of
        Some ranking_text \<Rightarrow> filter isdigit (get_text False ranking_text)
      | None \<Rightarrow> ''999999'')"

section \<open>get\_app\_store.py: the clock and the fetch loop\<close>

text \<open>
  A naive \<open>datetime\<close> is the number of microseconds since 0001-01-01T00:00:00 (the
  clock is taken to stay inside the range of \<open>datetime\<close>). \<open>isoformat\<close> prints
  \<open>YYYY-MM-DDTHH:MM:SS\<close>, followed by a point and six digits when the microseconds are
  not zero.
\<close>

primrec dec_w :: "nat \<Rightarrow> int \<Rightarrow> string" where
  "dec_w 0 n = []"
| "dec_w (Suc w) n = dec_w w (n div 10) @ [''0123456789'' ! nat (n mod 10)]"

definition civil :: "int \<Rightarrow> int \<times> int \<times> int" where
  "civil days =
     (let z = days + 306;
          era = z div 146097;
          doe = z mod 146097;
          yoe = (doe - doe div 1460 + doe div 36524 - doe div 146096) div 365;
          doy = doe - (365 * yoe + yoe div 4 - yoe div 100);
          mp = (5 * doy + 2) div 153;
          d = doy - (153 * mp + 2) div 5 + 1;
          m = (if mp < 10 then mp + 3 else mp - 9);
          y = yoe + era * 400 + (if m \<le> 2 then 1 else 0)
      in (y, m, d))"

definition isoformat :: "int \<Rightarrow> string" where
  "isoformat t =
     (let us = t mod 1000000;
          secs = t div 1000000;
          (y, m, d) = civil (secs div 86400);
          sod = secs mod 86400
      in dec_w 4 y @ ''-'' @ dec_w 2 m @ ''-'' @ dec_w 2 d @ ''T''
         @ dec_w 2 (sod div 3600) @ '':'' @ dec_w 2 (sod mod 3600 div 60) @ '':''
         @ dec_w 2 (sod mod 60)
         @ (if us = 0 then [] else ''.'' @ dec_w 6 us))"

definition hours :: "int \<Rightarrow> int" where
  "hours h = h * 3600 * 1000000"

text \<open>
  What the world answers is given from outside: \<open>http w t url\<close> is what lines 87 to 91
  (\<open>session.get\<close>, \<open>raise_for_status\<close>, the parser) come to when they run at step \<open>t\<close>,
  and \<open>utcnow w t\<close> is what \<open>datetime.utcnow()\<close> reads at step \<open>t\<close>. The step counter is
  the only state of the loop besides the list it appends to; each request and each
  reading of the clock takes one step. Logging and \<open>time.sleep\<close> change nothing else.
\<close>

datatype outcome =
    RequestFailed string
  | OtherFailure string
  | Page node

record world =
  http :: "nat \<Rightarrow> string \<Rightarrow> outcome"
  utcnow :: "nat \<Rightarrow> int"

definition get_taiwan_time :: "world \<Rightarrow> nat \<Rightarrow> string" where
  "get_taiwan_time w t = isoformat (utcnow w t + hours 8)"

definition sentinel :: "string \<Rightarrow> string \<Rightarrow> string \<Rightarrow> app_info" where
  "sentinel url e ts =
     [(''name'', unknown_name), (''ranking'', ''999999''), (''url'', url),
      (''error'', e), (''timestamp'', ts)]"

text \<open>The body of the \<open>try\<close>: it yields the record to append, or the exception raised.\<close>

definition try_fetch :: "world \<Rightarrow> nat \<Rightarrow> string \<Rightarrow> exn + app_info" where
  "try_fetch w t url =
     (case http w t url of
        RequestFailed e \<Rightarrow> Inl (RequestException e)
      | OtherFailure e \<Rightarrow> Inl (OtherException e)
      | Page soup \<Rightarrow>
          Inr [(''name'', get_app_name soup), (''ranking'', get_app_ranking soup),
               (''url'', url), (''timestamp'', get_taiwan_time w (Suc t))])"

text \<open>\<open>str(e)\<close> of a caught exception; the two handlers build the same record.\<close>

fun str_exn :: "exn \<Rightarrow> string" where
  "str_exn (RequestException e) = e"
| "str_exn (OtherException e) = e"
| "str_exn (KeyError k) = k"
| "str_exn (ValueError v) = v"
| "str_exn (FileNotFoundError f) = f"
| "str_exn (OperationalError m) = m"
| "str_exn (IntegrityError m) = m"
| "str_exn e = []"

definition fetch_one :: "world \<Rightarrow> nat \<Rightarrow> string \<Rightarrow> app_info" where
  "fetch_one w t url =
     (case try_fetch w t url of
        Inr app_info \<Rightarrow> app_info
      | Inl (RequestException e) \<Rightarrow> sentinel url e (get_taiwan_time w (Suc t))
      | Inl e \<Rightarrow> sentinel url (str_exn e) (get_taiwan_time w (Suc t)))"

fun fetch_loop :: "world \<Rightarrow> string list \<Rightarrow> app_info list \<Rightarrow> nat \<Rightarrow> app_info list \<times> nat" where
  "fetch_loop w [] app_infos t = (app_infos, t)"
| "fetch_loop w (url # urls) app_infos t =
     fetch_loop w urls (app_infos @ [fetch_one w t url]) (t + 2)"

definition fetch_app_info :: "world \<Rightarrow> string list \<Rightarrow> nat \<Rightarrow> app_info list \<times> nat" where
  "fetch_app_info w urls t = fetch_loop w urls [] t"

subsection \<open>Concrete inputs used below\<close>

definition app_a :: app_info where "app_a = [(''name'', ''A''), (''ranking'', ''5'')]"

definition app_b :: app_info where "app_b = [(''name'', ''B''), (''ranking'', ''1'')]"

definition app_c :: app_info where "app_c = [(''name'', ''C''), (''ranking'', ''5'')]"

definition offline :: world where
  "offline = \<lparr>http = (\<lambda>t url. RequestFailed ''timeout''), utcnow = (\<lambda>t. 63844846200000042)\<rparr>"

definition page_without_digits :: node where
  "page_without_digits =
     Tag ''[document]'' [] [Tag ''a'' [''inline-list__item''] [NavigableString ''Finance'']]"

definition online :: world where
  "online = \<lparr>http = (\<lambda>t url. Page page_without_digits), utcnow = (\<lambda>t. 63844846200000042)\<rparr>"

definition page_with_rank :: node where
  "page_with_rank =
     Tag ''[document]'' []
       [Tag ''h1'' [''product-header__title''] [NavigableString '' MAX '' ],
        Tag ''a'' [''inline-list__item''] [NavigableString ''#3 in Finance'']]"

definition flaky :: world where
  "flaky = \<lparr>http = (\<lambda>t url. if url = ''bad'' then RequestFailed ''503 Server Error''
                              else Page page_with_rank),
            utcnow = (\<lambda>t. 63844846200000042)\<rparr>"

section \<open>JSON documents: \<open>json.dump\<close> and \<open>json.load\<close>\<close>

text \<open>
  The values that \<open>json.load\<close> produces: \<open>None\<close>, booleans, integers, strings, lists
  and dictionaries with string keys. Numbers with a fraction or an exponent (Python
  floats) are outside the model: the decoder below rejects them.
\<close>

datatype json =
    JNull
  | JBool bool
  | JInt int
  | JStr string
  | JArr "json list"
  | JObj "(string \<times> json) list"

subsection \<open>The encoder, as \<open>save_to_json\<close> calls it\<close>

text \<open>
  \<open>json.dump(data, f, ensure_ascii=False, indent=4)\<close>. With \<open>ensure_ascii=False\<close> a
  string is written between double quotes with only the double quote, the backslash
  and the control characters below \<open>0x20\<close> escaped; every other character, those
  outside ASCII included, is written as it is. With \<open>indent=4\<close> every element of a
  non-empty list or dictionary stands on a line of its own, indented by four blanks per
  nesting level; the separators are a comma and a colon followed by a blank.
\<close>

definition digit_char :: "nat \<Rightarrow> char" where
  "digit_char n = ''0123456789abcdef'' ! n"

fun str_of_nat :: "nat \<Rightarrow> string" where
  "str_of_nat n =
     (if n < 10 then [digit_char n] else str_of_nat (n div 10) @ [digit_char (n mod 10)])"

declare str_of_nat.simps [simp del]

definition str_of_int :: "int \<Rightarrow> string" where
  "str_of_int i = (if i < 0 then ''-'' @ str_of_nat (nat (- i)) else str_of_nat (nat i))"

definition quote :: char where
  "quote = CHR 0x22"

definition backslash :: char where
  "backslash = CHR 0x5C"

definition escape_char :: "char \<Rightarrow> string" where
  "escape_char c =
     (if c = quote then [backslash, quote]
      else if c = backslash then [backslash, backslash]
      else if c = CHR 0x0A then [backslash, CHR ''n'']
      else if c = CHR 0x0D then [backslash, CHR ''r'']
      else if c = CHR 0x09 then [backslash, CHR ''t'']
      else if c = CHR 0x08 then [backslash, CHR ''b'']
      else if c = CHR 0x0C then [backslash, CHR ''f'']
      else if c < CHR 0x20
        then [backslash, CHR ''u'', CHR ''0'', CHR ''0'',
              digit_char (of_char c div 16), digit_char (of_char c mod 16)]
      else [c])"

definition encode_basestring :: "string \<Rightarrow> string" where
  "encode_basestring s = quote # concat (map escape_char s) @ [quote]"

definition newline_indent :: "nat \<Rightarrow> string" where
  "newline_indent level = CHR 0x0A # replicate (4 * level) CHR '' ''"

fun join :: "string \<Rightarrow> string list \<Rightarrow> string" where
  "join sep [] = []"
| "join sep [x] = x"
| "join sep (x # y # ys) = x @ sep @ join sep (y # ys)"

fun iterencode :: "nat \<Rightarrow> json \<Rightarrow> string" where
  "iterencode level JNull = ''null''"
| "iterencode level (JBool b) = (if b then ''true'' else ''false'')"
| "iterencode level (JInt i) = str_of_int i"
| "iterencode level (JStr s) = encode_basestring s"
| "iterencode level (JArr xs) =
     (if xs = [] then ''[]''
      else ''['' @ newline_indent (Suc level)
           @ join ('','' @ newline_indent (Suc level)) (map (iterencode (Suc level)) xs)
           @ newline_indent level @ '']'')"
| "iterencode level (JObj kvs) =
     (if kvs = [] then ''{}''
      else ''{'' @ newline_indent (Suc level)
           @ join ('','' @ newline_indent (Suc level))
               (map (\<lambda>(k, v). encode_basestring k @ '': '' @ iterencode (Suc level) v) kvs)
           @ newline_indent level @ ''}'')"

definition json_dumps :: "json \<Rightarrow> string" where
  "json_dumps data = iterencode 0 data"

subsection \<open>The decoder, as \<open>import_json_to_db\<close> calls it\<close>

text \<open>
  \<open>json.load\<close>: whitespace is blank, tab, line feed and carriage return. A string ends
  at the first unescaped double quote; a raw control character inside it is an error;
  the escapes are those of JSON, and \<open>\uXXXX\<close> gives the character with that code point
  (here: its UTF-8 bytes), a high and a low surrogate escape in a row giving one
  character. A dictionary keeps, for a key written twice, the place of the first and the
  value of the last occurrence. \<open>None\<close> stands for \<open>JSONDecodeError\<close>.

  The functions take the remaining text and give back the value read and the text after
  it. The first argument of the recursive ones bounds the number of steps; \<open>json_loads\<close>
  starts them with a bound that the length of the text cannot exceed.
\<close>

definition is_ws :: "char \<Rightarrow> bool" where
  "is_ws c = (c = CHR '' '' \<or> c = CHR 0x09 \<or> c = CHR 0x0A \<or> c = CHR 0x0D)"

definition skip_ws :: "string \<Rightarrow> string" where
  "skip_ws s = dropWhile is_ws s"

definition hex_val :: "char \<Rightarrow> nat option" where
  "hex_val c =
     (if CHR ''0'' \<le> c \<and> c \<le> CHR ''9'' then Some (of_char c - 48)
      else if CHR ''a'' \<le> c \<and> c \<le> CHR ''f'' then Some (of_char c - 87)
      else if CHR ''A'' \<le> c \<and> c \<le> CHR ''F'' then Some (of_char c - 55)
      else None)"

definition decode_uXXXX :: "string \<Rightarrow> nat option" where
  "decode_uXXXX s =
     (case s of
        a # b # c # d # rest \<Rightarrow>
          (case (hex_val a, hex_val b, hex_val c, hex_val d) of
             (Some x, Some y, Some z, Some w) \<Rightarrow> Some (((x * 16 + y) * 16 + z) * 16 + w)
           | _ \<Rightarrow> None)
      | _ \<Rightarrow> None)"

definition utf8 :: "nat \<Rightarrow> string" where
  "utf8 cp =
     (if cp < 0x80 then [char_of cp]
      else if cp < 0x800 then [char_of (0xC0 + cp div 64), char_of (0x80 + cp mod 64)]
      else if cp < 0x10000
        then [char_of (0xE0 + cp div 4096), char_of (0x80 + cp div 64 mod 64),
              char_of (0x80 + cp mod 64)]
      else [char_of (0xF0 + cp div 262144), char_of (0x80 + cp div 4096 mod 64),
            char_of (0x80 + cp div 64 mod 64), char_of (0x80 + cp mod 64)])"

text \<open>
  After \<open>\u\<close>: the code point, and the text after the escape (after both escapes when
  they are a surrogate pair).
\<close>

definition scan_u :: "string \<Rightarrow> (nat \<times> string) option" where
  "scan_u s =
     (case decode_uXXXX s of
        None \<Rightarrow> None
      | Some uni \<Rightarrow>
          (let r = drop 4 s in
           if 0xD800 \<le> uni \<and> uni \<le> 0xDBFF \<and> take 2 r = [backslash, CHR ''u'']
           then (case decode_uXXXX (drop 2 r) of
                   None \<Rightarrow> None
                 | Some uni2 \<Rightarrow>
                     if 0xDC00 \<le> uni2 \<and> uni2 \<le> 0xDFFF
                     then Some (0x10000 + ((uni - 0xD800) * 1024 + (uni2 - 0xDC00)), drop 6 r)
                     else Some (uni, r))
           else Some (uni, r)))"

definition unescape :: "char \<Rightarrow> char option" where
  "unescape e =
     (if e = quote then Some quote
      else if e = backslash then Some backslash
      else if e = CHR ''/'' then Some CHR ''/''
      else if e = CHR ''b'' then Some (CHR 0x08)
      else if e = CHR ''f'' then Some (CHR 0x0C)
      else if e = CHR ''n'' then Some (CHR 0x0A)
      else if e = CHR ''r'' then Some (CHR 0x0D)
      else if e = CHR ''t'' then Some (CHR 0x09)
      else None)"

text \<open>\<open>scanstring\<close>, called after the opening double quote.\<close>

fun scan :: "nat \<Rightarrow> string \<Rightarrow> (string \<times> string) option" where
  "scan 0 s = None"
| "scan (Suc n) [] = None"
| "scan (Suc n) (c # cs) =
     (if c = quote then Some ([], cs)
      else if c = backslash then
        (case cs of
           [] \<Rightarrow> None
         | e # r \<Rightarrow>
             if e = CHR ''u'' then
               (case scan_u r of
                  None \<Rightarrow> None
                | Some (cp, r') \<Rightarrow>
                    (case scan n r' of
                       None \<Rightarrow> None
                     | Some (t, rest) \<Rightarrow> Some (utf8 cp @ t, rest)))
             else
               (case unescape e of
                  None \<Rightarrow> None
                | Some d \<Rightarrow>
                    (case scan n r of
                       None \<Rightarrow> None
                     | Some (t, rest) \<Rightarrow> Some (d # t, rest))))
      else if c < CHR 0x20 then None
      else (case scan n cs of
              None \<Rightarrow> None
            | Some (t, rest) \<Rightarrow> Some (c # t, rest)))"

definition scanstring :: "string \<Rightarrow> (string \<times> string) option" where
  "scanstring s = scan (Suc (length s)) s"

text \<open>
  A number: an optional minus sign, then \<open>0\<close> or a digit from 1 to 9 followed by
  digits. A point or an exponent after it would make it a float.
\<close>

definition nat_of_digits :: "string \<Rightarrow> nat" where
  "nat_of_digits ds = foldl (\<lambda>acc c. 10 * acc + digit_val c) 0 ds"

definition number_digits :: "string \<Rightarrow> string" where
  "number_digits u = (if u \<noteq> [] \<and> hd u = CHR ''0'' then ''0'' else takeWhile isdigit u)"

definition parse_number :: "string \<Rightarrow> (json \<times> string) option" where
  "parse_number s =
     (let neg = (s \<noteq> [] \<and> hd s = CHR ''-'');
          u = (if neg then tl s else s);
          ds = number_digits u;
          rest = drop (length ds) u
      in if ds = [] then None
         else if rest \<noteq> [] \<and> (hd rest = CHR ''.'' \<or> hd rest = CHR ''e'' \<or> hd rest = CHR ''E'')
           then None
         else Some (JInt (if neg then - int (nat_of_digits ds) else int (nat_of_digits ds)),
                    rest))"

text \<open>\<open>dict(pairs)\<close>: a later pair with a key already present replaces its value.\<close>

fun dict_set :: "(string \<times> json) list \<Rightarrow> string \<Rightarrow> json \<Rightarrow> (string \<times> json) list" where
  "dict_set [] k v = [(k, v)]"
| "dict_set ((k', v') # kvs) k v =
     (if k' = k then (k, v) # kvs else (k', v') # dict_set kvs k v)"

definition dict_of :: "(string \<times> json) list \<Rightarrow> (string \<times> json) list" where
  "dict_of pairs = foldl (\<lambda>d (k, v). dict_set d k v) [] pairs"

fun scan_once :: "nat \<Rightarrow> string \<Rightarrow> (json \<times> string) option"
  and parse_array :: "nat \<Rightarrow> string \<Rightarrow> (json list \<times> string) option"
  and parse_object :: "nat \<Rightarrow> string \<Rightarrow> ((string \<times> json) list \<times> string) option"
where
  "scan_once 0 s = None"
| "scan_once (Suc n) s =
     (case s of
        [] \<Rightarrow> None
      | c # cs \<Rightarrow>
          if c = quote then
            (case scanstring cs of None \<Rightarrow> None | Some (t, rest) \<Rightarrow> Some (JStr t, rest))
          else if c = CHR ''{'' then
            (case skip_ws cs of
               [] \<Rightarrow> None
             | d # r \<Rightarrow>
                 if d = CHR ''}'' then Some (JObj [], r)
                 else (case parse_object n (d # r) of
                         None \<Rightarrow> None
                       | Some (pairs, rest) \<Rightarrow> Some (JObj (dict_of pairs), rest)))
          else if c = CHR ''['' then
            (case skip_ws cs of
               [] \<Rightarrow> None
             | d # r \<Rightarrow>
                 if d = CHR '']'' then Some (JArr [], r)
                 else (case parse_array n (d # r) of
                         None \<Rightarrow> None
                       | Some (values, rest) \<Rightarrow> Some (JArr values, rest)))
          else if take 4 s = ''null'' then Some (JNull, drop 4 s)
          else if take 4 s = ''true'' then Some (JBool True, drop 4 s)
          else if take 5 s = ''false'' then Some (JBool False, drop 5 s)
          else parse_number s)"
| "parse_array 0 s = None"
| "parse_array (Suc n) s =
     (case scan_once n s of
        None \<Rightarrow> None
      | Some (v, r) \<Rightarrow>
          (case skip_ws r of
             [] \<Rightarrow> None
           | d # r' \<Rightarrow>
               if d = CHR '']'' then Some ([v], r')
               else if d = CHR '','' then
                 (case parse_array n (skip_ws r') of
                    None \<Rightarrow> None
                  | Some (vs, rest) \<Rightarrow> Some (v # vs, rest))
               else None))"
| "parse_object 0 s = None"
| "parse_object (Suc n) s =
     (case s of
        [] \<Rightarrow> None
      | c # cs \<Rightarrow>
          if c \<noteq> quote then None
          else
            (case scanstring cs of
               None \<Rightarrow> None
             | Some (k, r) \<Rightarrow>
                 (case skip_ws r of
                    [] \<Rightarrow> None
                  | d # r1 \<Rightarrow>
                      if d \<noteq> CHR '':'' then None
                      else
                        (case scan_once n (skip_ws r1) of
                           None \<Rightarrow> None
                         | Some (v, r2) \<Rightarrow>
                             (case skip_ws r2 of
                                [] \<Rightarrow> None
                              | e # r3 \<Rightarrow>
                                  if e = CHR ''}'' then Some ([(k, v)], r3)
                                  else if e = CHR '','' then
                                    (case parse_object n (skip_ws r3) of
                                       None \<Rightarrow> None
                                     | Some (pairs, rest) \<Rightarrow> Some ((k, v) # pairs, rest))
                                  else None)))))"

definition json_loads :: "string \<Rightarrow> json option" where
  "json_loads s =
     (case scan_once (Suc (length s)) (skip_ws s) of
        None \<Rightarrow> None
      | Some (obj, rest) \<Rightarrow> if skip_ws rest = [] then Some obj else None)"

subsection \<open>Documents that are Python values\<close>

text \<open>
  A Python dictionary has each key once. \<open>fuel\<close> bounds the steps the decoder needs
  for the text of a value; \<open>after_number\<close> says that a text could not continue a number.
\<close>

fun wf_json :: "json \<Rightarrow> bool" where
  "wf_json (JArr xs) = (\<forall>x \<in> set xs. wf_json x)"
| "wf_json (JObj kvs) = (distinct (map fst kvs) \<and> (\<forall>kv \<in> set kvs. wf_json (snd kv)))"
| "wf_json j = True"

fun fuel :: "json \<Rightarrow> nat" where
  "fuel (JArr xs) = Suc (sum_list (map (\<lambda>x. Suc (fuel x)) xs))"
| "fuel (JObj kvs) = Suc (sum_list (map (\<lambda>kv. Suc (fuel (snd kv))) kvs))"
| "fuel j = 1"

definition after_number :: "string \<Rightarrow> bool" where
  "after_number rest =
     (rest = [] \<or> (\<not> isdigit (hd rest) \<and> hd rest \<noteq> CHR ''.'' \<and> hd rest \<noteq> CHR ''e''
                    \<and> hd rest \<noteq> CHR ''E''))"

definition starts_value :: "string \<Rightarrow> bool" where
  "starts_value s = (s \<noteq> [] \<and> \<not> is_ws (hd s) \<and> hd s \<noteq> CHR '']'')"

text \<open>The text of one key with its value, as the encoder writes it inside a dictionary.\<close>

definition encode_member :: "nat \<Rightarrow> string \<times> json \<Rightarrow> string" where
  "encode_member level kv = encode_basestring (fst kv) @ '': '' @ iterencode level (snd kv)"

section \<open>get\_app\_store.py: writing the snapshot\<close>

text \<open>
  \<open>save_to_json\<close> (lines 175 to 198). The file name carries the local time of
  \<open>datetime.now()\<close>, printed by \<open>strftime('%Y%m%d_%H%M%S')\<close> (the year has four digits from
  the year 1000 on); \<open>os.path.join\<close> is the POSIX one. The document is a dictionary with
  the two keys \<open>timestamp\<close> and \<open>apps\<close>, in this order, the records under \<open>apps\<close> in the
  order of the argument; each record is a dictionary from strings to strings.

  \<open>open(file_path, 'w', encoding='utf-8')\<close> succeeds or raises; which of the two is given
  from outside by \<open>can_open\<close>, since directories and permissions are not part of the file
  system of this model. The document is built before the file is opened, and a failing
  \<open>open\<close> leaves the file system as it was. A string holds the UTF-8 bytes of a text, so
  writing it with \<open>encoding='utf-8'\<close> writes the string itself. Logging and printing change
  nothing else.
\<close>

definition strftime_compact :: "int \<Rightarrow> string" where
  "strftime_compact t =
     (let secs = t div 1000000;
          (y, m, d) = civil (secs div 86400);
          sod = secs mod 86400
      in dec_w 4 y @ dec_w 2 m @ dec_w 2 d @ ''_''
         @ dec_w 2 (sod div 3600) @ dec_w 2 (sod mod 3600 div 60) @ dec_w 2 (sod mod 60))"

definition path_join :: "string \<Rightarrow> string \<Rightarrow> string" where
  "path_join a b =
     (if b \<noteq> [] \<and> hd b = CHR ''/'' then b
      else if a = [] \<or> last a = CHR ''/'' then a @ b
      else a @ ''/'' @ b)"

definition snapshot_path :: "int \<Rightarrow> string \<Rightarrow> string" where
  "snapshot_path now folder_name =
     path_join folder_name (''app_store_ranking_'' @ strftime_compact now @ ''.json'')"

definition json_of_app_info :: "app_info \<Rightarrow> json" where
  "json_of_app_info app_info = JObj (map (\<lambda>(k, v). (k, JStr v)) app_info)"

definition snapshot :: "string \<Rightarrow> app_info list \<Rightarrow> json" where
  "snapshot timestamp app_infos =
     JObj [(''timestamp'', JStr timestamp), (''apps'', JArr (map json_of_app_info app_infos))]"

definition save_to_json ::
  "int \<Rightarrow> world \<Rightarrow> nat \<Rightarrow> (string \<Rightarrow> bool) \<Rightarrow> app_info list \<Rightarrow> string
     \<Rightarrow> (string \<Rightarrow> string option) \<Rightarrow> exn + (string \<Rightarrow> string option)" where
  "save_to_json now w t can_open app_infos folder_name fs =
     (let file_path = snapshot_path now folder_name;
          data = snapshot (get_taiwan_time w t) app_infos
      in if can_open file_path then Inr (fs(file_path \<mapsto> json_dumps data))
         else Inl (FileNotFoundError file_path))"

subsection \<open>Concrete inputs used below\<close>

definition app_unknown :: app_info where
  "app_unknown =
     [(''name'', unknown_name), (''ranking'', ''999999''), (''url'', ''https://a/b''),
      (''error'', ''503 \"Server\" Error''), (''timestamp'', ''2024-03-01T10:00:00'')]"

definition no_files :: "string \<Rightarrow> string option" where
  "no_files = (\<lambda>path. None)"

section \<open>json\_to\_db.py: Python operations on the loaded document\<close>

text \<open>
  The loader applies \<open>.get\<close>, \<open>.split\<close>, \<open>in\<close>, subscription, \<open>int\<close> and a \<open>for\<close> loop to
  whatever \<open>json.load\<close> returned. Each is defined on every JSON value, with the
  exception Python raises where the value has the wrong type.
\<close>

fun py_get :: "json \<Rightarrow> string \<Rightarrow> json \<Rightarrow> exn + json" where
  "py_get (JObj kvs) k d = Inr (case map_of kvs k of None \<Rightarrow> d | Some v \<Rightarrow> v)"
| "py_get v k d = Inl AttributeError"

fun py_split_T0 :: "json \<Rightarrow> exn + string" where
  "py_split_T0 (JStr s) = Inr (takeWhile (\<lambda>c. c \<noteq> CHR ''T'') s)"
| "py_split_T0 v = Inl AttributeError"

fun contains_str :: "string \<Rightarrow> string \<Rightarrow> bool" where
  "contains_str k [] = (k = [])"
| "contains_str k (c # cs) = (take (length k) (c # cs) = k \<or> contains_str k cs)"

fun py_in :: "string \<Rightarrow> json \<Rightarrow> exn + bool" where
  "py_in k (JObj kvs) = Inr (k \<in> set (map fst kvs))"
| "py_in k (JArr xs) = Inr (JStr k \<in> set xs)"
| "py_in k (JStr s) = Inr (contains_str k s)"
| "py_in k v = Inl TypeError"

fun py_getitem :: "json \<Rightarrow> string \<Rightarrow> exn + json" where
  "py_getitem (JObj kvs) k = (case map_of kvs k of None \<Rightarrow> Inl (KeyError k) | Some v \<Rightarrow> Inr v)"
| "py_getitem v k = Inl TypeError"

fun py_int_of :: "json \<Rightarrow> exn + int" where
  "py_int_of (JStr s) = py_int s"
| "py_int_of (JInt i) = Inr i"
| "py_int_of (JBool b) = Inr (if b then 1 else 0)"
| "py_int_of v = Inl TypeError"

fun py_iter :: "json \<Rightarrow> exn + json list" where
  "py_iter (JArr xs) = Inr xs"
| "py_iter (JObj kvs) = Inr (map (\<lambda>(k, v). JStr k) kvs)"
| "py_iter (JStr s) = Inr (map (\<lambda>c. JStr [c]) s)"
| "py_iter v = Inl TypeError"

section \<open>json\_to\_db.py: the database\<close>

text \<open>
  The SQLite file holds the two tables of \<open>create_database\<close>, each absent (\<open>None\<close>) or
  a list of rows in rowid order, and for each table the largest rowid it ever gave out
  (the \<open>AUTOINCREMENT\<close> counter). A \<open>TEXT\<close> column holds a string or \<open>NULL\<close>, the
  \<open>INTEGER\<close> column an integer or \<open>NULL\<close>; columns declared \<open>NOT NULL\<close> hold no \<open>NULL\<close>.
\<close>

record apps_row =
  a_id :: int
  a_name :: string
  a_version :: "string option"
  a_ranking :: "int option"
  a_url :: string
  a_date :: string
  a_timestamp :: string
  a_created_at :: string

record errors_row =
  e_id :: int
  e_name :: string
  e_url :: string
  e_error_message :: string
  e_timestamp :: string
  e_created_at :: string

record database =
  apps :: "apps_row list option"
  errors :: "errors_row list option"
  apps_seq :: int
  errors_seq :: int

text \<open>
  A connection sees its own uncommitted changes (\<open>pending\<close>); other connections, and
  the file once the connection is gone, hold what was last committed (\<open>durable\<close>).
  Closing, or dropping, a connection discards what it has not committed.
\<close>

record connection =
  durable :: database
  pending :: database

definition connect :: "database \<Rightarrow> connection" where
  "connect db = \<lparr>durable = db, pending = db\<rparr>"

definition commit :: "connection \<Rightarrow> connection" where
  "commit conn = conn\<lparr>durable := pending conn\<rparr>"

definition close :: "connection \<Rightarrow> database" where
  "close conn = durable conn"

text \<open>
  The values the \<open>sqlite3\<close> module binds to the \<open>?\<close> of a statement: \<open>None\<close> is
  \<open>NULL\<close>, an \<open>int\<close> (a \<open>bool\<close> is one) must fit 64 bits, a \<open>str\<close> is text, and a list or
  a dictionary cannot be bound. The parameters are bound in order.
\<close>

datatype sqlval = SNull | SInteger int | SText string

fun bind_param :: "json \<Rightarrow> exn + sqlval" where
  "bind_param JNull = Inr SNull"
| "bind_param (JBool b) = Inr (SInteger (if b then 1 else 0))"
| "bind_param (JInt i) =
     (if - (2 ^ 63) \<le> i \<and> i < 2 ^ 63 then Inr (SInteger i) else Inl OverflowError)"
| "bind_param (JStr s) = Inr (SText s)"
| "bind_param v = Inl InterfaceError"

fun bind_params :: "json list \<Rightarrow> exn + sqlval list" where
  "bind_params [] = Inr []"
| "bind_params (p # ps) =
     (case bind_param p of
        Inl e \<Rightarrow> Inl e
      | Inr v \<Rightarrow> (case bind_params ps of Inl e \<Rightarrow> Inl e | Inr vs \<Rightarrow> Inr (v # vs)))"

text \<open>What a column of \<open>TEXT\<close> affinity stores: an integer is stored as its decimal text.\<close>

fun text_affinity :: "sqlval \<Rightarrow> string option" where
  "text_affinity SNull = None"
| "text_affinity (SInteger i) = Some (str_of_int i)"
| "text_affinity (SText s) = Some s"

definition not_null :: "string \<Rightarrow> string option \<Rightarrow> exn + string" where
  "not_null column v =
     (case v of
        None \<Rightarrow> Inl (IntegrityError (''NOT NULL constraint failed: '' @ column))
      | Some s \<Rightarrow> Inr s)"

definition next_id :: "int \<Rightarrow> int list \<Rightarrow> int" where
  "next_id seq ids = fold max ids seq + 1"

subsection \<open>The statements\<close>

text \<open>\<open>create_database\<close>: both tables are created if absent; the call commits.\<close>

definition create_database :: "database \<Rightarrow> database" where
  "create_database db =
     db\<lparr>apps := Some (case apps db of None \<Rightarrow> [] | Some rows \<Rightarrow> rows),
        errors := Some (case errors db of None \<Rightarrow> [] | Some rows \<Rightarrow> rows)\<rparr>"

text \<open>\<open>SELECT COUNT(*) FROM apps WHERE date = ?\<close>\<close>

definition count_apps :: "string \<Rightarrow> connection \<Rightarrow> exn + nat" where
  "count_apps date conn =
     (case apps (pending conn) of
        None \<Rightarrow> Inl (OperationalError ''no such table: apps'')
      | Some rows \<Rightarrow> Inr (length (filter (\<lambda>r. a_date r = date) rows)))"

text \<open>\<open>DELETE FROM apps WHERE date = ?\<close>\<close>

definition delete_apps :: "string \<Rightarrow> connection \<Rightarrow> exn + connection" where
  "delete_apps date conn =
     (case apps (pending conn) of
        None \<Rightarrow> Inl (OperationalError ''no such table: apps'')
      | Some rows \<Rightarrow>
          Inr (conn\<lparr>pending := (pending conn)\<lparr>apps := Some (filter (\<lambda>r. a_date r \<noteq> date) rows)\<rparr>\<rparr>))"

text \<open>
  \<open>DELETE FROM errors WHERE date(timestamp) = ?\<close>. The engine's \<open>date\<close> function is
  a parameter, \<open>sqlite_date\<close>; \<open>None\<close> is its \<open>NULL\<close>, which equals nothing.
\<close>

definition delete_errors :: "(string \<Rightarrow> string option) \<Rightarrow> string \<Rightarrow> connection \<Rightarrow> exn + connection" where
  "delete_errors sqlite_date date conn =
     (case errors (pending conn) of
        None \<Rightarrow> Inl (OperationalError ''no such table: errors'')
      | Some rows \<Rightarrow>
          Inr (conn\<lparr>pending := (pending conn)
                 \<lparr>errors := Some (filter (\<lambda>r. sqlite_date (e_timestamp r) \<noteq> Some date) rows)\<rparr>\<rparr>))"

text \<open>
  \<open>INSERT INTO errors (name, url, error_message, timestamp, created_at)\<close>: the statement
  is prepared (the table must exist), the parameters are bound, and the row is stored if
  no \<open>NOT NULL\<close> column would hold \<open>NULL\<close>.
\<close>

definition insert_errors :: "json list \<Rightarrow> connection \<Rightarrow> exn + connection" where
  "insert_errors params conn =
     (case errors (pending conn) of
        None \<Rightarrow> Inl (OperationalError ''no such table: errors'')
      | Some rows \<Rightarrow>
          (case bind_params params of
             Inl e \<Rightarrow> Inl e
           | Inr vs \<Rightarrow>
               (case not_null ''errors.name'' (text_affinity (vs ! 0)) of Inl e \<Rightarrow> Inl e | Inr name \<Rightarrow>
                case not_null ''errors.url'' (text_affinity (vs ! 1)) of Inl e \<Rightarrow> Inl e | Inr url \<Rightarrow>
                case not_null ''errors.error_message'' (text_affinity (vs ! 2)) of Inl e \<Rightarrow> Inl e | Inr msg \<Rightarrow>
                case not_null ''errors.timestamp'' (text_affinity (vs ! 3)) of Inl e \<Rightarrow> Inl e | Inr ts \<Rightarrow>
                case not_null ''errors.created_at'' (text_affinity (vs ! 4)) of Inl e \<Rightarrow> Inl e | Inr created \<Rightarrow>
                  (let i = next_id (errors_seq (pending conn)) (map e_id rows);
                       row = \<lparr>e_id = i, e_name = name, e_url = url, e_error_message = msg,
                              e_timestamp = ts, e_created_at = created\<rparr>
                   in Inr (conn\<lparr>pending := (pending conn)
                             \<lparr>errors := Some (rows @ [row]), errors_seq := i\<rparr>\<rparr>)))))"

text \<open>
  \<open>INSERT INTO apps (name, version, ranking, url, date, timestamp, created_at)\<close>. The
  third parameter is the integer that \<open>int\<close> returned; it is stored as it is.
\<close>

definition insert_apps :: "json list \<Rightarrow> connection \<Rightarrow> exn + connection" where
  "insert_apps params conn =
     (case apps (pending conn) of
        None \<Rightarrow> Inl (OperationalError ''no such table: apps'')
      | Some rows \<Rightarrow>
          (case bind_params params of
             Inl e \<Rightarrow> Inl e
           | Inr vs \<Rightarrow>
               (case not_null ''apps.name'' (text_affinity (vs ! 0)) of Inl e \<Rightarrow> Inl e | Inr name \<Rightarrow>
                case not_null ''apps.url'' (text_affinity (vs ! 3)) of Inl e \<Rightarrow> Inl e | Inr url \<Rightarrow>
                case not_null ''apps.date'' (text_affinity (vs ! 4)) of Inl e \<Rightarrow> Inl e | Inr date \<Rightarrow>
                case not_null ''apps.timestamp'' (text_affinity (vs ! 5)) of Inl e \<Rightarrow> Inl e | Inr ts \<Rightarrow>
                case not_null ''apps.created_at'' (text_affinity (vs ! 6)) of Inl e \<Rightarrow> Inl e | Inr created \<Rightarrow>
                  (let i = next_id (apps_seq (pending conn)) (map a_id rows);
                       row = \<lparr>a_id = i, a_name = name, a_version = text_affinity (vs ! 1),
                              a_ranking = (case vs ! 2 of SInteger rank \<Rightarrow> Some rank | v \<Rightarrow> None),
                              a_url = url, a_date = date,
                              a_timestamp = ts, a_created_at = created\<rparr>
                   in Inr (conn\<lparr>pending := (pending conn)
                             \<lparr>apps := Some (rows @ [row]), apps_seq := i\<rparr>\<rparr>)))))"

subsection \<open>\<open>import_json_to_db\<close>\<close>

text \<open>
  Lines 136 to 146: the tuple of parameters is built first (a missing key raises
  \<open>KeyError\<close>), then the statement runs.
\<close>

definition import_error :: "string \<Rightarrow> json \<Rightarrow> connection \<Rightarrow> exn + connection" where
  "import_error current_time app conn =
     (case py_getitem app ''name'' of Inl e \<Rightarrow> Inl e | Inr name \<Rightarrow>
      case py_getitem app ''url'' of Inl e \<Rightarrow> Inl e | Inr url \<Rightarrow>
      case py_getitem app ''error'' of Inl e \<Rightarrow> Inl e | Inr err \<Rightarrow>
      case py_getitem app ''timestamp'' of Inl e \<Rightarrow> Inl e | Inr ts \<Rightarrow>
        insert_errors [name, url, err, ts, JStr current_time] conn)"

text \<open>
  Lines 148 to 160: \<open>app['name']\<close>, \<open>app['version']\<close>, \<open>int(app['ranking'])\<close>,
  \<open>app['url']\<close>, \<open>date\<close>, \<open>app['timestamp']\<close>, \<open>current_time\<close>, evaluated in this order.
\<close>

definition import_app :: "string \<Rightarrow> string \<Rightarrow> json \<Rightarrow> connection \<Rightarrow> exn + connection" where
  "import_app date current_time app conn =
     (case py_getitem app ''name'' of Inl e \<Rightarrow> Inl e | Inr name \<Rightarrow>
      case py_getitem app ''version'' of Inl e \<Rightarrow> Inl e | Inr version \<Rightarrow>
      case py_getitem app ''ranking'' of Inl e \<Rightarrow> Inl e | Inr ranking \<Rightarrow>
      case py_int_of ranking of Inl e \<Rightarrow> Inl e | Inr rank \<Rightarrow>
      case py_getitem app ''url'' of Inl e \<Rightarrow> Inl e | Inr url \<Rightarrow>
      case py_getitem app ''timestamp'' of Inl e \<Rightarrow> Inl e | Inr ts \<Rightarrow>
        insert_apps [name, version, JInt rank, url, JStr date, ts, JStr current_time] conn)"

text \<open>
  The loop of lines 134 to 160. It stops at the first exception, which leaves the
  function with the connection as it is then: nothing it did is committed.
\<close>

fun import_apps :: "string \<Rightarrow> string \<Rightarrow> json list \<Rightarrow> connection \<Rightarrow> exn option \<times> connection" where
  "import_apps date current_time [] conn = (None, conn)"
| "import_apps date current_time (app # rest) conn =
     (case py_in ''error'' app of
        Inl e \<Rightarrow> (Some e, conn)
      | Inr is_error \<Rightarrow>
          (case (if is_error then import_error current_time app conn
                 else import_app date current_time app conn) of
             Inl e \<Rightarrow> (Some e, conn)
           | Inr conn' \<Rightarrow> import_apps date current_time rest conn'))"

text \<open>
  Lines 117 to 131: the rows of the same date are deleted, from both tables, when the
  \<open>apps\<close> table holds a row of that date.
\<close>

definition delete_same_date :: "(string \<Rightarrow> string option) \<Rightarrow> string \<Rightarrow> connection \<Rightarrow> exn option \<times> connection" where
  "delete_same_date sqlite_date date conn =
     (case count_apps date conn of
        Inl e \<Rightarrow> (Some e, conn)
      | Inr n \<Rightarrow>
          if n > 0 then
            (case delete_apps date conn of
               Inl e \<Rightarrow> (Some e, conn)
             | Inr conn1 \<Rightarrow>
                 (case delete_errors sqlite_date date conn1 of
                    Inl e \<Rightarrow> (Some e, conn1)
                  | Inr conn2 \<Rightarrow> (None, conn2)))
          else (None, conn))"

text \<open>
  The function after \<open>json.load\<close>, on the loaded document. The result is the exception
  that left the function, if any, and the database as the file holds it afterwards.
  \<open>conn.commit()\<close> is reached only when nothing raised.
\<close>

definition import_data :: "(string \<Rightarrow> string option) \<Rightarrow> string \<Rightarrow> json \<Rightarrow> database \<Rightarrow> exn option \<times> database" where
  "import_data sqlite_date current_time data db =
     (let conn = connect db in
      case py_get data ''timestamp'' (JStr []) of
        Inl e \<Rightarrow> (Some e, close conn)
      | Inr ts \<Rightarrow>
      case py_split_T0 ts of
        Inl e \<Rightarrow> (Some e, close conn)
      | Inr date \<Rightarrow>
      case delete_same_date sqlite_date date conn of
        (Some e, conn1) \<Rightarrow> (Some e, close conn1)
      | (None, conn1) \<Rightarrow>
      case py_get data ''apps'' (JArr []) of
        Inl e \<Rightarrow> (Some e, close conn1)
      | Inr apps_value \<Rightarrow>
      case py_iter apps_value of
        Inl e \<Rightarrow> (Some e, close conn1)
      | Inr app_list \<Rightarrow>
      case import_apps date current_time app_list conn1 of
        (Some e, conn2) \<Rightarrow> (Some e, close conn2)
      | (None, conn2) \<Rightarrow> (None, close (commit conn2)))"

text \<open>
  The file system is a map from paths to file contents. \<open>open\<close> raises when the file
  is missing and \<open>json.load\<close> when the text is not JSON, both before the database is
  opened.
\<close>

definition read_json :: "(string \<Rightarrow> string option) \<Rightarrow> string \<Rightarrow> exn + json" where
  "read_json fs path =
     (case fs path of
        None \<Rightarrow> Inl (FileNotFoundError path)
      | Some text \<Rightarrow> (case json_loads text of None \<Rightarrow> Inl JSONDecodeError | Some data \<Rightarrow> Inr data))"

definition import_json_to_db ::
  "(string \<Rightarrow> string option) \<Rightarrow> string \<Rightarrow> (string \<Rightarrow> string option) \<Rightarrow> string \<Rightarrow> database
     \<Rightarrow> exn option \<times> database" where
  "import_json_to_db sqlite_date current_time fs json_file_path db =
     (case read_json fs json_file_path of
        Inl e \<Rightarrow> (Some e, db)
      | Inr data \<Rightarrow> import_data sqlite_date current_time data db)"

subsection \<open>The queries\<close>

text \<open>
  \<open>ORDER BY ranking ASC\<close> puts \<open>NULL\<close> first, as the order on \<open>int option\<close> does;
  \<open>ORDER BY timestamp DESC\<close> compares the texts byte by byte. The engine leaves the
  order of rows with equal keys open; here they keep their rowid order. A negative
  \<open>LIMIT\<close> is no limit. Each row becomes a dictionary of the selected columns.
\<close>

definition sql_limit :: "int \<Rightarrow> 'a list \<Rightarrow> 'a list" where
  "sql_limit n rows = (if n < 0 then rows else take (nat n) rows)"

definition sql_text :: "string option \<Rightarrow> sqlval" where
  "sql_text v = (case v of None \<Rightarrow> SNull | Some s \<Rightarrow> SText s)"

definition sql_integer :: "int option \<Rightarrow> sqlval" where
  "sql_integer v = (case v of None \<Rightarrow> SNull | Some i \<Rightarrow> SInteger i)"

definition apps_dict :: "apps_row \<Rightarrow> (string \<times> sqlval) list" where
  "apps_dict r =
     [(''name'', SText (a_name r)), (''version'', sql_text (a_version r)),
      (''ranking'', sql_integer (a_ranking r)), (''url'', SText (a_url r)),
      (''date'', SText (a_date r)), (''timestamp'', SText (a_timestamp r))]"

definition errors_dict :: "errors_row \<Rightarrow> (string \<times> sqlval) list" where
  "errors_dict r =
     [(''name'', SText (e_name r)), (''url'', SText (e_url r)),
      (''error_message'', SText (e_error_message r)), (''timestamp'', SText (e_timestamp r))]"

definition select_apps :: "database \<Rightarrow> int \<Rightarrow> exn + apps_row list" where
  "select_apps db limit =
     (case apps db of
        None \<Rightarrow> Inl (OperationalError ''no such table: apps'')
      | Some rows \<Rightarrow> Inr (sql_limit limit (sort_key a_ranking rows)))"

definition query_apps :: "database \<Rightarrow> int \<Rightarrow> exn + (string \<times> sqlval) list list" where
  "query_apps db limit =
     (case select_apps db limit of Inl e \<Rightarrow> Inl e | Inr rows \<Rightarrow> Inr (map apps_dict rows))"

definition select_errors :: "database \<Rightarrow> int \<Rightarrow> exn + errors_row list" where
  "select_errors db limit =
     (case errors db of
        None \<Rightarrow> Inl (OperationalError ''no such table: errors'')
      | Some rows \<Rightarrow> Inr (sql_limit limit (rev (sort_key e_timestamp (rev rows)))))"

definition query_errors :: "database \<Rightarrow> int \<Rightarrow> exn + (string \<times> sqlval) list list" where
  "query_errors db limit =
     (case select_errors db limit of Inl e \<Rightarrow> Inl e | Inr rows \<Rightarrow> Inr (map errors_dict rows))"

subsection \<open>\<open>get_latest_json_file\<close> and \<open>main\<close>\<close>

text \<open>
  The snapshot directory is a list of file names with their modification times, in the
  order the operating system lists them. \<open>glob\<close> keeps the names that match
  \<open>app_store_ranking_*.json\<close>; \<open>max(json_files, key=os.path.getmtime)\<close> returns the
  first file whose time no other file exceeds.
\<close>

definition DATA_DIR :: string where
  "DATA_DIR = ''app_store_ranking''"


definition matches_pattern :: "string \<Rightarrow> bool" where
  "matches_pattern name =
     (take 18 name = ''app_store_ranking_''
      \<and> 5 \<le> length (drop 18 name)
      \<and> drop (length name - 5) name = ''.json'')"

definition glob_json :: "(string \<times> 'm) list \<Rightarrow> (string \<times> 'm) list" where
  "glob_json listing =
     map (\<lambda>(name, mtime). (DATA_DIR @ ''/'' @ name, mtime))
       (filter (\<lambda>(name, mtime). matches_pattern name) listing)"






subsection \<open>Concrete inputs used below\<close>

text \<open>
  For the examples, the engine's \<open>date\<close> function on the timestamps of the examples: the
  first ten characters of a text that has them (the date part of an ISO 8601 timestamp).
\<close>

definition iso_date :: "string \<Rightarrow> string option" where
  "iso_date ts = (if 10 \<le> length ts then Some (take 10 ts) else None)"

definition no_database :: database where
  "no_database = \<lparr>apps = None, errors = None, apps_seq = 0, errors_seq = 0\<rparr>"

definition empty_database :: database where
  "empty_database = create_database no_database"

text \<open>The snapshot of the scenario of the specification: two records, neither has a version.\<close>

definition snapshot_without_version :: json where
  "snapshot_without_version =
     JObj [(''timestamp'', JStr ''2024-01-01T00:00:00''),
           (''apps'', JArr [
              JObj [(''name'', JStr ''A''), (''ranking'', JStr ''5''), (''url'', JStr ''u1''),
                    (''timestamp'', JStr ''2024-01-01T00:00:00'')],
              JObj [(''name'', JStr ''B''), (''ranking'', JStr ''1''), (''url'', JStr ''u2''),
                    (''timestamp'', JStr ''2024-01-01T00:00:01'')]])]"


text \<open>A snapshot as the scraper writes it when its only target fails.\<close>

definition snapshot_of_errors :: json where
  "snapshot_of_errors =
     JObj [(''timestamp'', JStr ''2024-01-01T00:00:00''),
           (''apps'', JArr [
              JObj [(''name'', JStr unknown_name), (''ranking'', JStr ''999999''),
                    (''url'', JStr ''u1''), (''error'', JStr ''timeout''),
                    (''timestamp'', JStr ''2024-01-01T00:00:00'')]])]"

definition one_file :: "json \<Rightarrow> string \<Rightarrow> string option" where
  "one_file data path = (if path = ''snapshot.json'' then Some (json_dumps data) else None)"



text \<open>
  The two records with a version, among three records of failed targets whose timestamps
  are not in order.
\<close>

definition snapshot_with_failures :: json where
  "snapshot_with_failures =
     JObj [(''timestamp'', JStr ''2024-01-01T00:00:00''),
           (''apps'', JArr [
              JObj [(''name'', JStr unknown_name), (''ranking'', JStr ''999999''),
                    (''url'', JStr ''u3''), (''error'', JStr ''timeout''),
                    (''timestamp'', JStr ''2024-01-01T00:00:02'')],
              JObj [(''name'', JStr ''A''), (''version'', JStr ''1.0''), (''ranking'', JStr ''5''),
                    (''url'', JStr ''u1''), (''timestamp'', JStr ''2024-01-01T00:00:00'')],
              JObj [(''name'', JStr unknown_name), (''ranking'', JStr ''999999''),
                    (''url'', JStr ''u4''), (''error'', JStr ''404''),
                    (''timestamp'', JStr ''2024-01-01T00:00:04'')],
              JObj [(''name'', JStr ''B''), (''version'', JStr ''2.0''), (''ranking'', JStr ''1''),
                    (''url'', JStr ''u2''), (''timestamp'', JStr ''2024-01-01T00:00:01'')],
              JObj [(''name'', JStr unknown_name), (''ranking'', JStr ''999999''),
                    (''url'', JStr ''u5''), (''error'', JStr ''503''),
                    (''timestamp'', JStr ''2024-01-01T00:00:03'')]])]"

text \<open>The database after \<open>snapshot_with_failures\<close> was loaded into the empty one.\<close>

definition loaded_database :: database where
  "loaded_database =
     \<lparr>apps = Some
        [\<lparr>a_id = 1, a_name = ''A'', a_version = Some ''1.0'', a_ranking = Some 5, a_url = ''u1'',
          a_date = ''2024-01-01'', a_timestamp = ''2024-01-01T00:00:00'', a_created_at = ''t1''\<rparr>,
         \<lparr>a_id = 2, a_name = ''B'', a_version = Some ''2.0'', a_ranking = Some 1, a_url = ''u2'',
          a_date = ''2024-01-01'', a_timestamp = ''2024-01-01T00:00:01'', a_created_at = ''t1''\<rparr>],
      errors = Some
        [\<lparr>e_id = 1, e_name = unknown_name, e_url = ''u3'', e_error_message = ''timeout'',
          e_timestamp = ''2024-01-01T00:00:02'', e_created_at = ''t1''\<rparr>,
         \<lparr>e_id = 2, e_name = unknown_name, e_url = ''u4'', e_error_message = ''404'',
          e_timestamp = ''2024-01-01T00:00:04'', e_created_at = ''t1''\<rparr>,
         \<lparr>e_id = 3, e_name = unknown_name, e_url = ''u5'', e_error_message = ''503'',
          e_timestamp = ''2024-01-01T00:00:03'', e_created_at = ''t1''\<rparr>],
      apps_seq = 2, errors_seq = 3\<rparr>"

section \<open>Properties of get\_app\_store.py\<close>

subsection \<open>Sorting by ranking\<close>

lemma decorate_Inr:
  "\<forall>x\<in>set xs. \<not> isl (ranking_key x) \<Longrightarrow>
   decorate xs = Inr (map (\<lambda>x. (projr (ranking_key x), x)) xs)"
  by (induction xs) (auto split: sum.splits)

lemma decorate_Inl:
  "x \<in> set xs \<Longrightarrow> isl (ranking_key x) \<Longrightarrow> isl (decorate xs)"
  by (induction xs) (auto split: sum.splits)

lemma insort_decorated:
  "\<forall>p\<in>set ps. fst p = f (snd p) \<Longrightarrow>
   map snd (insort_key fst (f x, x) ps) = insort_key f x (map snd ps)"
  by (induction ps) auto

lemma sort_decorated: "map snd (sort_key fst (map (\<lambda>x. (f x, x)) xs)) = sort_key f xs"
proof (induction xs)
  case Nil
  show ?case by simp
next
  case (Cons x xs)
  have "\<forall>p\<in>set (sort_key fst (map (\<lambda>x. (f x, x)) xs)). fst p = f (snd p)"
    by auto
  then show ?case
    using Cons by (simp add: insort_decorated)
qed

lemma sort_apps_by_ranking_Inr:
  assumes "\<forall>x\<in>set xs. \<not> isl (ranking_key x)"
  shows "sort_apps_by_ranking xs = Inr (sort_key (\<lambda>x. projr (ranking_key x)) xs)"
  by (simp add: sort_apps_by_ranking_def decorate_Inr [OF assms] sort_decorated)

text \<open>
  Claim C6. For every list of records whose \<open>ranking\<close> fields all parse as integers,
  \<open>sort_apps_by_ranking\<close> returns (it does not raise), the result holds the same records,
  it is ascending in \<open>int(ranking)\<close>, and it is stable: for every key, the records with
  that key stand in the order they had in the input.
\<close>

theorem sort_apps_by_ranking_sorted_stable:
  assumes "\<forall>x\<in>set app_infos. \<not> isl (ranking_key x)"
  shows "\<exists>ys. sort_apps_by_ranking app_infos = Inr ys
           \<and> mset ys = mset app_infos
           \<and> sorted (map (\<lambda>x. projr (ranking_key x)) ys)
           \<and> (\<forall>k. filter (\<lambda>x. ranking_key x = Inr k) ys
                  = filter (\<lambda>x. ranking_key x = Inr k) app_infos)"
proof -
  let ?f = "\<lambda>x. projr (ranking_key x)"
  let ?ys = "sort_key ?f app_infos"
  have eq: "sort_apps_by_ranking app_infos = Inr ?ys"
    by (rule sort_apps_by_ranking_Inr [OF assms])
  have key: "(ranking_key x = Inr k) = (?f x = k)" if "x \<in> set app_infos" for x k
    using assms that by (cases "ranking_key x") auto
  have stable: "filter (\<lambda>x. ranking_key x = Inr k) ?ys
                = filter (\<lambda>x. ranking_key x = Inr k) app_infos" for k
  proof -
    have "filter (\<lambda>x. ranking_key x = Inr k) ?ys = filter (\<lambda>x. ?f x = k) ?ys"
      by (rule filter_cong) (auto simp: key)
    also have "\<dots> = filter (\<lambda>x. ?f x = k) app_infos"
      by (rule sort_key_stable)
    also have "\<dots> = filter (\<lambda>x. ranking_key x = Inr k) app_infos"
      by (rule filter_cong) (auto simp: key)
    finally show ?thesis .
  qed
  show ?thesis
    using eq stable by (intro exI [of _ ?ys]) (simp add: sorted_sort_key)
qed

text \<open>
  Three records with rankings 5, 1 and 5: the record ranked 1 comes first and the two
  records ranked 5 keep their order.
\<close>

theorem sort_apps_by_ranking_sorted_stable_witness:
  "list_all (\<lambda>x. \<not> isl (ranking_key x)) [app_a, app_b, app_c]
   \<and> sort_apps_by_ranking [app_a, app_b, app_c] = Inr [app_b, app_a, app_c]
   \<and> (\<exists>ys. sort_apps_by_ranking [app_a, app_b, app_c] = Inr ys
           \<and> mset ys = mset [app_a, app_b, app_c]
           \<and> sorted (map (\<lambda>x. projr (ranking_key x)) ys)
           \<and> (\<forall>k. filter (\<lambda>x. ranking_key x = Inr k) ys
                  = filter (\<lambda>x. ranking_key x = Inr k) [app_a, app_b, app_c]))"
proof -
  have h: "\<forall>x\<in>set [app_a, app_b, app_c]. \<not> isl (ranking_key x)"
    by code_simp
  have v: "sort_apps_by_ranking [app_a, app_b, app_c] = Inr [app_b, app_a, app_c]"
    by code_simp
  have l: "list_all (\<lambda>x. \<not> isl (ranking_key x)) [app_a, app_b, app_c]"
    using h by (simp only: list_all_iff)
  show ?thesis
    using l v sort_apps_by_ranking_sorted_stable [OF h] by blast
qed

subsection \<open>The fetch loop\<close>

text \<open>
  The loop appends one record per URL; the record for the \<open>i\<close>-th URL is built at step
  \<open>t + 2 * i\<close>.
\<close>

lemma fetch_loop_eq:
  "fetch_loop w urls acc t =
     (acc @ map (\<lambda>i. fetch_one w (t + 2 * i) (urls ! i)) [0..<length urls],
      t + 2 * length urls)"
proof (induction urls arbitrary: acc t)
  case Nil
  show ?case by simp
next
  case (Cons url urls)
  have "map (\<lambda>i. fetch_one w (t + 2 * i) ((url # urls) ! i)) [0..<length (url # urls)]
        = fetch_one w t url # map (\<lambda>i. fetch_one w (t + 2 + 2 * i) (urls ! i)) [0..<length urls]"
  proof -
    have "[0..<length (url # urls)] = 0 # map Suc [0..<length urls]"
      by (simp add: upt_conv_Cons map_Suc_upt del: upt_Suc)
    then show ?thesis
      by (simp add: comp_def del: upt_Suc)
  qed
  then show ?case
    by (simp add: Cons.IH)
qed

lemma fetch_app_info_eq:
  "fst (fetch_app_info w urls t)
     = map (\<lambda>i. fetch_one w (t + 2 * i) (urls ! i)) [0..<length urls]"
  by (simp add: fetch_app_info_def fetch_loop_eq)

lemma fetch_one_url: "map_of (fetch_one w t url) ''url'' = Some url"
  by (simp add: fetch_one_def try_fetch_def sentinel_def split: outcome.splits)

text \<open>
  Claim C4. For every list of URLs, \<open>fetch_app_info\<close> returns one record per URL, in the
  order of the input (the \<open>url\<close> fields of the result are the input list). No failure
  leaves the function: whatever exception the body of the \<open>try\<close> raises for a URL, the
  record at that position is the sentinel record built from it, and the records of the
  other URLs are built as usual.
\<close>

theorem fetch_app_info_one_record_per_url:
  "length (fst (fetch_app_info w urls t)) = length urls
   \<and> map (\<lambda>r. map_of r ''url'') (fst (fetch_app_info w urls t)) = map Some urls
   \<and> (\<forall>i<length urls.
         case try_fetch w (t + 2 * i) (urls ! i) of
           Inr app_info \<Rightarrow> fst (fetch_app_info w urls t) ! i = app_info
         | Inl e \<Rightarrow> fst (fetch_app_info w urls t) ! i
                     = sentinel (urls ! i) (str_exn e) (get_taiwan_time w (t + 2 * i + 1)))"
proof -
  have "map (\<lambda>r. map_of r ''url'') (fst (fetch_app_info w urls t))
          = map (\<lambda>i. Some (urls ! i)) [0..<length urls]"
    by (simp add: fetch_app_info_eq fetch_one_url)
  also have "\<dots> = map Some (map (\<lambda>i. urls ! i) [0..<length urls])"
    by simp
  also have "\<dots> = map Some urls"
    by (simp only: map_nth)
  finally have order: "map (\<lambda>r. map_of r ''url'') (fst (fetch_app_info w urls t)) = map Some urls" .
  have each: "case try_fetch w (t + 2 * i) (urls ! i) of
           Inr app_info \<Rightarrow> fst (fetch_app_info w urls t) ! i = app_info
         | Inl e \<Rightarrow> fst (fetch_app_info w urls t) ! i
                     = sentinel (urls ! i) (str_exn e) (get_taiwan_time w (t + 2 * i + 1))"
    if "i < length urls" for i
    using that
    by (cases "http w (t + 2 * i) (urls ! i)")
       (simp_all add: fetch_app_info_eq fetch_one_def try_fetch_def)
  show ?thesis
    using order each by (simp add: fetch_app_info_eq)
qed

text \<open>
  Two URLs, the first of which fails with a transport error: the result has two records,
  the sentinel for the first URL and the extracted record for the second.
\<close>

theorem fetch_app_info_one_record_per_url_witness:
  "fst (fetch_app_info flaky [''bad'', ''good''] 0)
     = [sentinel ''bad'' ''503 Server Error'' ''2024-03-01T07:30:00.000042'',
        [(''name'', ''MAX''), (''ranking'', ''3''), (''url'', ''good''),
         (''timestamp'', ''2024-03-01T07:30:00.000042'')]]
   \<and> length (fst (fetch_app_info flaky [''bad'', ''good''] 0)) = length [''bad'', ''good'']
   \<and> try_fetch flaky (0 + 2 * 0) ([''bad'', ''good''] ! 0)
       = Inl (RequestException ''503 Server Error'')"
proof -
  have v: "fst (fetch_app_info flaky [''bad'', ''good''] 0)
     = [sentinel ''bad'' ''503 Server Error'' ''2024-03-01T07:30:00.000042'',
        [(''name'', ''MAX''), (''ranking'', ''3''), (''url'', ''good''),
         (''timestamp'', ''2024-03-01T07:30:00.000042'')]]"
    by code_simp
  have e: "try_fetch flaky (0 + 2 * 0) ([''bad'', ''good''] ! 0)
       = Inl (RequestException ''503 Server Error'')"
    by code_simp
  from fetch_app_info_one_record_per_url [of flaky "[''bad'', ''good'']" 0] v e
  show ?thesis
    by simp
qed

lemma fetch_one_error:
  assumes "map_of (fetch_one w t url) ''error'' = Some e"
  shows "(http w t url = RequestFailed e \<or> http w t url = OtherFailure e)
         \<and> fetch_one w t url = sentinel url e (get_taiwan_time w (Suc t))"
  using assms
  by (cases "http w t url") (simp_all add: fetch_one_def try_fetch_def sentinel_def)

text \<open>
  Claim C5. Every record of the result of \<open>fetch_app_info\<close> that carries an \<open>error\<close>
  field (empty or not) has ranking \<open>999999\<close> and the sentinel name; its \<open>error\<close> field is
  the string of the failure that the request for its URL ended in, and its timestamp
  is the ISO format of the UTC clock, read while the failure was handled, plus eight
  hours.
\<close>

theorem fetch_app_info_error_records:
  assumes "r \<in> set (fst (fetch_app_info w urls t))"
    and "map_of r ''error'' = Some e"
  shows "map_of r ''ranking'' = Some ''999999''
         \<and> map_of r ''name'' = Some unknown_name
         \<and> (\<exists>i<length urls.
               (http w (t + 2 * i) (urls ! i) = RequestFailed e
                \<or> http w (t + 2 * i) (urls ! i) = OtherFailure e)
               \<and> map_of r ''url'' = Some (urls ! i)
               \<and> map_of r ''timestamp''
                   = Some (isoformat (utcnow w (t + 2 * i + 1) + hours 8)))"
proof -
  from assms(1) obtain i where i: "i < length urls"
    and r: "r = fetch_one w (t + 2 * i) (urls ! i)"
    by (auto simp: fetch_app_info_eq)
  from fetch_one_error [of w "t + 2 * i" "urls ! i" e] assms(2) r
  have src: "http w (t + 2 * i) (urls ! i) = RequestFailed e
             \<or> http w (t + 2 * i) (urls ! i) = OtherFailure e"
    and rec: "r = sentinel (urls ! i) e (get_taiwan_time w (Suc (t + 2 * i)))"
    by simp_all
  have "map_of r ''timestamp'' = Some (isoformat (utcnow w (t + 2 * i + 1) + hours 8))"
    by (simp add: rec sentinel_def get_taiwan_time_def)
  moreover have "map_of r ''url'' = Some (urls ! i)"
    by (simp add: rec sentinel_def)
  moreover have "map_of r ''ranking'' = Some ''999999''" "map_of r ''name'' = Some unknown_name"
    by (simp_all add: rec sentinel_def)
  ultimately show ?thesis
    using i src by blast
qed

text \<open>
  One URL whose request times out while the UTC clock shows 2024-02-29T23:30:00.000042:
  the record is the sentinel, stamped 2024-03-01T07:30:00.000042.
\<close>

theorem fetch_app_info_error_records_witness:
  "sentinel ''u'' ''timeout'' ''2024-03-01T07:30:00.000042''
       \<in> set (fst (fetch_app_info offline [''u''] 0))
   \<and> map_of (sentinel ''u'' ''timeout'' ''2024-03-01T07:30:00.000042'') ''error''
       = Some ''timeout''
   \<and> map_of (sentinel ''u'' ''timeout'' ''2024-03-01T07:30:00.000042'') ''ranking''
       = Some ''999999''
   \<and> map_of (sentinel ''u'' ''timeout'' ''2024-03-01T07:30:00.000042'') ''name''
       = Some unknown_name
   \<and> isoformat (utcnow offline 1 + hours 8) = ''2024-03-01T07:30:00.000042''"
proof -
  let ?r = "sentinel ''u'' ''timeout'' ''2024-03-01T07:30:00.000042''"
  have iso: "isoformat (utcnow offline 1 + hours 8) = ''2024-03-01T07:30:00.000042''"
    by code_simp
  have m: "?r \<in> set (fst (fetch_app_info offline [''u''] 0))"
    by code_simp
  have e: "map_of ?r ''error'' = Some ''timeout''"
    by (simp add: sentinel_def)
  from fetch_app_info_error_records [OF m e] iso m e show ?thesis
    by blast
qed

subsection \<open>A ranking element without digits\<close>

lemma py_int_empty: "py_int [] = Inl (ValueError [])"
  by (simp add: py_int_def int_body_def)

text \<open>
  Claim C10. When the page fetched for some URL has the ranking element but its text
  holds no digit, \<open>_get_app_ranking\<close> returns the empty string, the record built for
  that URL carries it as its ranking, \<open>int\<close> raises \<open>ValueError\<close> on it, and
  \<open>sort_apps_by_ranking\<close> applied to the fetched records raises instead of returning a
  sorted list.
\<close>

theorem ranking_without_digits_breaks_sort:
  assumes "i < length urls"
    and "http w (t + 2 * i) (urls ! i) = Page soup"
    and "find_tag soup ''a'' ''inline-list__item'' = Some el"
    and "filter isdigit (get_text False el) = []"
  shows "get_app_ranking soup = []
         \<and> map_of (fst (fetch_app_info w urls t) ! i) ''ranking'' = Some []
         \<and> ranking_key (fst (fetch_app_info w urls t) ! i) = Inl (ValueError [])
         \<and> isl (sort_apps_by_ranking (fst (fetch_app_info w urls t)))"
proof -
  let ?rs = "fst (fetch_app_info w urls t)"
  have g: "get_app_ranking soup = []"
    using assms(3,4) by (simp add: get_app_ranking_def)
  have r: "?rs ! i = fetch_one w (t + 2 * i) (urls ! i)"
    using assms(1) by (simp add: fetch_app_info_eq)
  have m: "map_of (?rs ! i) ''ranking'' = Some []"
    using assms(2) g by (simp add: r fetch_one_def try_fetch_def)
  have k: "ranking_key (?rs ! i) = Inl (ValueError [])"
    by (simp add: ranking_key_def m py_int_empty)
  have "?rs ! i \<in> set ?rs"
    using assms(1) by (simp add: fetch_app_info_eq del: upt_Suc)
  then have "isl (decorate ?rs)"
    using k by (intro decorate_Inl [of "?rs ! i"]) simp_all
  then have "isl (sort_apps_by_ranking ?rs)"
    by (cases "decorate ?rs") (simp_all add: sort_apps_by_ranking_def)
  with g m k show ?thesis
    by simp
qed

text \<open>
  Such a record exists: a page whose ranking link reads \<open>Finance\<close>.
\<close>

theorem ranking_without_digits_breaks_sort_witness:
  "(0::nat) < length [''u'']
   \<and> http online (0 + 2 * 0) ([''u''] ! 0) = Page page_without_digits
   \<and> find_tag page_without_digits ''a'' ''inline-list__item''
       = Some (Tag ''a'' [''inline-list__item''] [NavigableString ''Finance''])
   \<and> filter isdigit (get_text False (Tag ''a'' [''inline-list__item''] [NavigableString ''Finance''])) = []
   \<and> get_app_ranking page_without_digits = []
   \<and> sort_apps_by_ranking (fst (fetch_app_info online [''u''] 0)) = Inl (ValueError [])"
proof -
  let ?el = "Tag ''a'' [''inline-list__item''] [NavigableString ''Finance'']"
  have a: "(0::nat) < length [''u'']"
    by simp
  have b: "http online (0 + 2 * 0) ([''u''] ! 0) = Page page_without_digits"
    by (simp add: online_def)
  have c: "find_tag page_without_digits ''a'' ''inline-list__item'' = Some ?el"
    by code_simp
  have d: "filter isdigit (get_text False ?el) = []"
    by code_simp
  have v: "sort_apps_by_ranking (fst (fetch_app_info online [''u''] 0)) = Inl (ValueError [])"
    by code_simp
  from ranking_without_digits_breaks_sort [OF a b c d] a b c d v show ?thesis
    by simp
qed

text \<open>
  Claim C3. The claim says that \<open>_get_app_ranking\<close> returns \<open>999999\<close> whenever the
  digit-filtered string is empty. On the page whose ranking link reads \<open>Finance\<close> the
  function returns the empty string, not \<open>999999\<close>.
\<close>

theorem get_app_ranking_empty_string:
  "get_app_ranking page_without_digits = [] \<and> get_app_ranking page_without_digits \<noteq> ''999999''"
  by code_simp

section \<open>Properties of json\_to\_db.py\<close>

subsection \<open>Nothing is committed when the load raises\<close>

text \<open>
  No statement touches what the file durably holds; only \<open>commit\<close> does, and the
  function reaches it only when every record went in.
\<close>

lemma delete_apps_durable: "delete_apps date conn = Inr conn' \<Longrightarrow> durable conn' = durable conn"
  by (auto simp: delete_apps_def split: option.splits)

lemma delete_errors_durable:
  "delete_errors sqlite_date date conn = Inr conn' \<Longrightarrow> durable conn' = durable conn"
  by (auto simp: delete_errors_def split: option.splits)

lemma insert_errors_durable: "insert_errors ps conn = Inr conn' \<Longrightarrow> durable conn' = durable conn"
  by (auto simp: insert_errors_def Let_def split: option.splits sum.splits)

lemma insert_apps_durable: "insert_apps ps conn = Inr conn' \<Longrightarrow> durable conn' = durable conn"
  by (auto simp: insert_apps_def Let_def split: option.splits sum.splits)

lemma import_error_durable:
  "import_error current_time app conn = Inr conn' \<Longrightarrow> durable conn' = durable conn"
  by (auto simp: import_error_def split: sum.splits dest: insert_errors_durable)

lemma import_app_durable:
  "import_app date current_time app conn = Inr conn' \<Longrightarrow> durable conn' = durable conn"
  by (auto simp: import_app_def split: sum.splits dest: insert_apps_durable)

lemma import_apps_durable:
  "import_apps date current_time xs conn = (r, conn') \<Longrightarrow> durable conn' = durable conn"
proof (induction xs arbitrary: conn)
  case Nil
  then show ?case by simp
next
  case (Cons app rest)
  then show ?case
    by (auto split: sum.splits if_splits dest: import_error_durable import_app_durable)
qed

lemma delete_same_date_durable:
  assumes "delete_same_date sqlite_date date conn = (r, conn')"
  shows "durable conn' = durable conn"
proof (cases "count_apps date conn")
  case (Inl e)
  with assms show ?thesis
    by (auto simp: delete_same_date_def)
next
  case (Inr n)
  show ?thesis
  proof (cases "0 < n")
    case False
    with assms Inr show ?thesis
      by (auto simp: delete_same_date_def)
  next
    case True
    show ?thesis
    proof (cases "delete_apps date conn")
      case (Inl e)
      with assms Inr True show ?thesis
        by (auto simp: delete_same_date_def)
    next
      case conn1: (Inr conn1)
      have d1: "durable conn1 = durable conn"
        using conn1 by (rule delete_apps_durable)
      show ?thesis
      proof (cases "delete_errors sqlite_date date conn1")
        case (Inl e)
        with assms Inr True conn1 d1 show ?thesis
          by (auto simp: delete_same_date_def)
      next
        case conn2: (Inr conn2)
        have "durable conn2 = durable conn1"
          using conn2 by (rule delete_errors_durable)
        with assms Inr True conn1 conn2 d1 show ?thesis
          by (auto simp: delete_same_date_def)
      qed
    qed
  qed
qed

lemma import_data_no_partial_commit:
  assumes "import_data sqlite_date current_time data db = (Some e, db')"
  shows "db' = db"
  using assms
  by (auto simp: import_data_def Let_def close_def connect_def
           split: sum.splits prod.splits option.splits
           dest!: import_apps_durable delete_same_date_durable)

lemma import_apps_raises:
  assumes "app \<in> set xs" and "py_in ''error'' app = Inr False"
    and "\<And>conn. isl (import_app date current_time app conn)"
  shows "fst (import_apps date current_time xs conn) \<noteq> None"
  using assms(1)
proof (induction xs arbitrary: conn)
  case Nil
  then show ?case by simp
next
  case (Cons x rest)
  show ?case
  proof (cases "x = app")
    case True
    with assms(2) assms(3) [of conn] show ?thesis
      by (cases "import_app date current_time app conn") simp_all
  next
    case False
    with Cons show ?thesis
      by (auto split: sum.splits)
  qed
qed

lemma import_app_missing_version:
  assumes "''version'' \<notin> fst ` set kvs"
  shows "isl (import_app date current_time (JObj kvs) conn)"
proof -
  have "map_of kvs ''version'' = None"
    using assms by (simp add: map_of_eq_None_iff)
  then show ?thesis
    by (simp add: import_app_def split: option.splits sum.splits)
qed

text \<open>
  Claim C1. When the snapshot file holds a document whose \<open>apps\<close> list contains a
  record without an \<open>error\<close> field and without a \<open>version\<close> field, \<open>import_json_to_db\<close>
  ends with an exception (the \<open>KeyError\<close> for \<open>version\<close>, or an earlier failure of the
  same load), and the database is exactly what it was before the call: no row of the
  snapshot is in either table, and no deletion this call made has taken effect.
\<close>

theorem import_aborts_on_missing_version:
  assumes "read_json fs json_file_path = Inr (JObj doc)"
    and "map_of doc ''apps'' = Some (JArr app_list)"
    and "JObj app \<in> set app_list"
    and "''error'' \<notin> fst ` set app"
    and "''version'' \<notin> fst ` set app"
  shows "\<exists>e. import_json_to_db sqlite_date current_time fs json_file_path db = (Some e, db)"
proof -
  let ?r = "import_data sqlite_date current_time (JObj doc) db"
  have "fst (import_apps date current_time app_list conn) \<noteq> None" for date conn
    using assms(3,4) import_app_missing_version [OF assms(5)]
    by (intro import_apps_raises [of "JObj app"]) simp_all
  then have raises: "import_apps date current_time app_list conn \<noteq> (None, conn')"
    for date conn conn'
    by (metis fst_conv)
  have "fst ?r \<noteq> None"
    using assms(2)
    by (auto simp: import_data_def Let_def raises split: sum.splits prod.splits option.splits)
  then obtain e db' where r: "?r = (Some e, db')"
    by (cases ?r) auto
  then have "db' = db"
    by (rule import_data_no_partial_commit)
  with r show ?thesis
    using assms(1) by (simp add: import_json_to_db_def)
qed

text \<open>
  The snapshot of the specification's scenario, written to a file and loaded into the
  empty database: \<open>KeyError\<close> for \<open>version\<close>, and the database is still empty.
\<close>

theorem import_aborts_on_missing_version_witness:
  "read_json (one_file snapshot_without_version) ''snapshot.json'' = Inr snapshot_without_version
   \<and> import_json_to_db iso_date ''t1'' (one_file snapshot_without_version) ''snapshot.json''
        empty_database
      = (Some (KeyError ''version''), empty_database)"
proof -
  let ?a = "[(''name'', JStr ''A''), (''ranking'', JStr ''5''), (''url'', JStr ''u1''),
             (''timestamp'', JStr ''2024-01-01T00:00:00'')]"
  let ?b = "[(''name'', JStr ''B''), (''ranking'', JStr ''1''), (''url'', JStr ''u2''),
             (''timestamp'', JStr ''2024-01-01T00:00:01'')]"
  let ?doc = "[(''timestamp'', JStr ''2024-01-01T00:00:00''), (''apps'', JArr [JObj ?a, JObj ?b])]"
  have r: "read_json (one_file snapshot_without_version) ''snapshot.json'' = Inr (JObj ?doc)"
    by code_simp
  have m: "map_of ?doc ''apps'' = Some (JArr [JObj ?a, JObj ?b])"
    by simp
  have i: "JObj ?a \<in> set [JObj ?a, JObj ?b]"
    by simp
  have e: "''error'' \<notin> fst ` set ?a"
    by simp
  have v: "''version'' \<notin> fst ` set ?a"
    by simp
  have x: "import_json_to_db iso_date ''t1'' (one_file snapshot_without_version) ''snapshot.json''
        empty_database
      = (Some (KeyError ''version''), empty_database)"
    by code_simp
  from import_aborts_on_missing_version [OF r m i e v, of iso_date "''t1''" empty_database] r x
  show ?thesis
    by (simp add: snapshot_without_version_def)
qed

subsection \<open>Loading the same snapshot twice\<close>

text \<open>
  Claim C2. The claim says that loading a snapshot twice leaves the same rows for its
  date as loading it once. The snapshot below holds one failed record, as the scraper
  writes it. Loaded into the empty database it gives one row in \<open>errors\<close>; loaded again,
  the table holds that row twice: the \<open>apps\<close> table has no row of the date, so neither
  \<open>DELETE\<close> runs. This holds whatever the engine's \<open>date\<close> function is.
\<close>

theorem errors_only_snapshot_loaded_twice:
  "import_json_to_db sqlite_date ''t1'' (one_file snapshot_of_errors) ''snapshot.json'' empty_database
     = (None, \<lparr>apps = Some [],
               errors = Some [\<lparr>e_id = 1, e_name = unknown_name, e_url = ''u1'',
                                e_error_message = ''timeout'',
                                e_timestamp = ''2024-01-01T00:00:00'', e_created_at = ''t1''\<rparr>],
               apps_seq = 0, errors_seq = 1\<rparr>)
   \<and> import_json_to_db sqlite_date ''t2'' (one_file snapshot_of_errors) ''snapshot.json''
        \<lparr>apps = Some [],
         errors = Some [\<lparr>e_id = 1, e_name = unknown_name, e_url = ''u1'',
                          e_error_message = ''timeout'',
                          e_timestamp = ''2024-01-01T00:00:00'', e_created_at = ''t1''\<rparr>],
         apps_seq = 0, errors_seq = 1\<rparr>
     = (None, \<lparr>apps = Some [],
               errors = Some [\<lparr>e_id = 1, e_name = unknown_name, e_url = ''u1'',
                                e_error_message = ''timeout'',
                                e_timestamp = ''2024-01-01T00:00:00'', e_created_at = ''t1''\<rparr>,
                              \<lparr>e_id = 2, e_name = unknown_name, e_url = ''u1'',
                                e_error_message = ''timeout'',
                                e_timestamp = ''2024-01-01T00:00:00'', e_created_at = ''t2''\<rparr>],
               apps_seq = 0, errors_seq = 2\<rparr>)"
  by code_simp

subsection \<open>Choosing the snapshot file\<close>




lemma glob_json_path_nonempty: "(p, m) \<in> set (glob_json listing) \<Longrightarrow> p \<noteq> []"
  by (auto simp: glob_json_def DATA_DIR_def)





subsection \<open>The queries\<close>

lemma top_of_sorted:
  assumes "sorted_wrt R (map f s)" and "mset s = mset rows"
  shows "sorted_wrt R (map f (take k s))
         \<and> mset (take k s) \<subseteq># mset rows
         \<and> (\<forall>r \<in># mset rows - mset (take k s). \<forall>p \<in> set (take k s). R (f p) (f r))"
proof -
  have split: "s = take k s @ drop k s"
    by simp
  have "sorted_wrt R (map f (take k s) @ map f (drop k s))"
    using assms(1) by (simp flip: map_append)
  then have s1: "sorted_wrt R (map f (take k s))"
    and s2: "\<forall>p \<in> set (take k s). \<forall>r \<in> set (drop k s). R (f p) (f r)"
    by (auto simp: sorted_wrt_append)
  have m: "mset rows = mset (take k s) + mset (drop k s)"
    using assms(2) by (metis split mset_append)
  then have "mset rows - mset (take k s) = mset (drop k s)"
    by simp
  with s1 s2 m show ?thesis
    by auto
qed

lemma sorted_desc:
  "sorted_wrt (\<lambda>a b. b \<le> a) (map f (rev (sort_key f xs)))"
  by (simp add: rev_map [symmetric] sorted_wrt_rev)

text \<open>
  Claim C9. For a limit \<open>n\<close> that is not negative, \<open>query_apps\<close> returns \<open>n\<close> rows of
  \<open>apps\<close>, or all of them when the table has fewer (so at most \<open>n\<close>), ascending in
  \<open>ranking\<close>, and no row left out ranks before a row returned; \<open>query_errors\<close> returns
  \<open>n\<close> rows of \<open>errors\<close>, or all of them when the table has fewer, descending in
  \<open>timestamp\<close>, and no row left out has a later timestamp than a row returned.
\<close>

theorem queries_return_top_rows_in_order:
  assumes "0 \<le> n" and "apps db = Some app_rows" and "errors db = Some error_rows"
  shows "(\<exists>picked. query_apps db n = Inr (map apps_dict picked)
            \<and> length picked \<le> nat n
            \<and> length picked = min (nat n) (length app_rows)
            \<and> sorted (map a_ranking picked)
            \<and> mset picked \<subseteq># mset app_rows
            \<and> (\<forall>r \<in># mset app_rows - mset picked. \<forall>p \<in> set picked. a_ranking p \<le> a_ranking r))
         \<and> (\<exists>picked. query_errors db n = Inr (map errors_dict picked)
            \<and> length picked \<le> nat n
            \<and> length picked = min (nat n) (length error_rows)
            \<and> sorted_wrt (\<lambda>a b. b \<le> a) (map e_timestamp picked)
            \<and> mset picked \<subseteq># mset error_rows
            \<and> (\<forall>r \<in># mset error_rows - mset picked. \<forall>p \<in> set picked.
                  e_timestamp r \<le> e_timestamp p))"
proof (intro conjI)
  let ?s = "sort_key a_ranking app_rows"
  have q: "query_apps db n = Inr (map apps_dict (take (nat n) ?s))"
    using assms(1,2) by (simp add: query_apps_def select_apps_def sql_limit_def)
  have "sorted_wrt (\<le>) (map a_ranking ?s)" "mset ?s = mset app_rows"
    by simp_all
  from top_of_sorted [OF this, of "nat n"] q
  show "\<exists>picked. query_apps db n = Inr (map apps_dict picked)
            \<and> length picked \<le> nat n
            \<and> length picked = min (nat n) (length app_rows)
            \<and> sorted (map a_ranking picked)
            \<and> mset picked \<subseteq># mset app_rows
            \<and> (\<forall>r \<in># mset app_rows - mset picked. \<forall>p \<in> set picked. a_ranking p \<le> a_ranking r)"
    by (intro exI [of _ "take (nat n) ?s"]) (simp add: min.commute)
next
  let ?s = "rev (sort_key e_timestamp (rev error_rows))"
  have q: "query_errors db n = Inr (map errors_dict (take (nat n) ?s))"
    using assms(1,3) by (simp add: query_errors_def select_errors_def sql_limit_def)
  have "sorted_wrt (\<lambda>a b. b \<le> a) (map e_timestamp ?s)"
    by (rule sorted_desc)
  moreover have "mset ?s = mset error_rows"
    by simp
  ultimately show "\<exists>picked. query_errors db n = Inr (map errors_dict picked)
            \<and> length picked \<le> nat n
            \<and> length picked = min (nat n) (length error_rows)
            \<and> sorted_wrt (\<lambda>a b. b \<le> a) (map e_timestamp picked)
            \<and> mset picked \<subseteq># mset error_rows
            \<and> (\<forall>r \<in># mset error_rows - mset picked. \<forall>p \<in> set picked.
                  e_timestamp r \<le> e_timestamp p)"
    using top_of_sorted [of "\<lambda>a b. b \<le> a" e_timestamp ?s error_rows "nat n"] q
    by (intro exI [of _ "take (nat n) ?s"]) (simp add: min.commute)
qed

text \<open>
  The scenario: a snapshot with the records A (ranking 5) and B (ranking 1), each with a
  version, and with three records of failed targets, is loaded into the empty database.
  The two top rows of \<open>apps\<close> are B, then A; of the three rows of \<open>errors\<close> the two latest
  are returned, the later one first, and the earliest is left out.
\<close>

theorem queries_return_top_rows_in_order_witness:
  "import_json_to_db iso_date ''t1'' (one_file snapshot_with_failures) ''snapshot.json'' empty_database
     = (None, loaded_database)
   \<and> query_apps loaded_database 2
       = Inr [[(''name'', SText ''B''), (''version'', SText ''2.0''), (''ranking'', SInteger 1),
               (''url'', SText ''u2''), (''date'', SText ''2024-01-01''),
               (''timestamp'', SText ''2024-01-01T00:00:01'')],
              [(''name'', SText ''A''), (''version'', SText ''1.0''), (''ranking'', SInteger 5),
               (''url'', SText ''u1''), (''date'', SText ''2024-01-01''),
               (''timestamp'', SText ''2024-01-01T00:00:00'')]]
   \<and> query_errors loaded_database 2
       = Inr [[(''name'', SText unknown_name), (''url'', SText ''u4''),
               (''error_message'', SText ''404''), (''timestamp'', SText ''2024-01-01T00:00:04'')],
              [(''name'', SText unknown_name), (''url'', SText ''u5''),
               (''error_message'', SText ''503''), (''timestamp'', SText ''2024-01-01T00:00:03'')]]
   \<and> (\<exists>picked. query_apps loaded_database 2 = Inr (map apps_dict picked)
         \<and> length picked \<le> nat 2
         \<and> length picked = min (nat 2) (length (the (apps loaded_database)))
         \<and> sorted (map a_ranking picked)
         \<and> mset picked \<subseteq># mset (the (apps loaded_database))
         \<and> (\<forall>r \<in># mset (the (apps loaded_database)) - mset picked. \<forall>p \<in> set picked.
               a_ranking p \<le> a_ranking r))
   \<and> (\<exists>picked. query_errors loaded_database 2 = Inr (map errors_dict picked)
         \<and> length picked \<le> nat 2
         \<and> length picked = min (nat 2) (length (the (errors loaded_database)))
         \<and> sorted_wrt (\<lambda>a b. b \<le> a) (map e_timestamp picked)
         \<and> mset picked \<subseteq># mset (the (errors loaded_database))
         \<and> (\<forall>r \<in># mset (the (errors loaded_database)) - mset picked. \<forall>p \<in> set picked.
               e_timestamp r \<le> e_timestamp p))
   \<and> length (the (apps loaded_database)) = 2
   \<and> length (the (errors loaded_database)) = 3"
proof -
  have l: "import_json_to_db iso_date ''t1'' (one_file snapshot_with_failures) ''snapshot.json''
             empty_database = (None, loaded_database)"
    by code_simp
  have a: "apps loaded_database = Some (the (apps loaded_database))"
    by (simp add: loaded_database_def)
  have e: "errors loaded_database = Some (the (errors loaded_database))"
    by (simp add: loaded_database_def)
  have qa: "query_apps loaded_database 2
       = Inr [[(''name'', SText ''B''), (''version'', SText ''2.0''), (''ranking'', SInteger 1),
               (''url'', SText ''u2''), (''date'', SText ''2024-01-01''),
               (''timestamp'', SText ''2024-01-01T00:00:01'')],
              [(''name'', SText ''A''), (''version'', SText ''1.0''), (''ranking'', SInteger 5),
               (''url'', SText ''u1''), (''date'', SText ''2024-01-01''),
               (''timestamp'', SText ''2024-01-01T00:00:00'')]]"
    by code_simp
  have qe: "query_errors loaded_database 2
       = Inr [[(''name'', SText unknown_name), (''url'', SText ''u4''),
               (''error_message'', SText ''404''), (''timestamp'', SText ''2024-01-01T00:00:04'')],
              [(''name'', SText unknown_name), (''url'', SText ''u5''),
               (''error_message'', SText ''503''), (''timestamp'', SText ''2024-01-01T00:00:03'')]]"
    by code_simp
  have la: "length (the (apps loaded_database)) = 2"
    by (simp add: loaded_database_def)
  have le: "length (the (errors loaded_database)) = 3"
    by (simp add: loaded_database_def)
  have n: "(0::int) \<le> 2"
    by simp
  note t = queries_return_top_rows_in_order [OF n a e]
  show ?thesis
    by (intro conjI; (rule l qa qe la le t [THEN conjunct1] t [THEN conjunct2]))
qed

section \<open>The snapshot file read by the loader\<close>

text \<open>
  What \<open>save_to_json\<close> writes, \<open>import_json_to_db\<close> reads: the decoder applied to the text
  of the encoder gives the document back. The proof follows the encoder: strings first,
  then integers, then the steps of the decoder on the punctuation and the indentation
  the encoder writes, then lists and dictionaries by induction on the document.
\<close>

subsection \<open>Strings\<close>

text \<open>
  The decoder undoes each escape of the encoder, and stops at the quote that ends the
  string, which no escaped text contains unescaped.
\<close>

lemma hex_val_digit_char: "k < 16 \<Longrightarrow> hex_val (digit_char k) = Some k"
proof -
  assume "k < 16"
  then have "k \<in> set [0..<16]"
    by simp
  moreover have "\<forall>k \<in> set [0..<16]. hex_val (digit_char k) = Some k"
    by code_simp
  ultimately show ?thesis
    by blast
qed

lemma control_char_code:
  assumes "c < CHR 0x20"
  shows "of_char c div 16 < (16::nat)" and "of_char c mod 16 < (16::nat)"
    and "(of_char c div 16) * 16 + of_char c mod 16 = (of_char c :: nat)"
    and "(of_char c :: nat) < 32"
  using assms by (simp_all add: less_char_def)

lemma scan_u_control:
  assumes "c < CHR 0x20"
  shows "scan_u (CHR ''0'' # CHR ''0'' # digit_char (of_char c div 16)
                  # digit_char (of_char c mod 16) # rest) = Some (of_char c, rest)"
proof -
  have z: "hex_val CHR ''0'' = Some 0"
    by (simp add: hex_val_def)
  have "decode_uXXXX (CHR ''0'' # CHR ''0'' # digit_char (of_char c div 16)
                  # digit_char (of_char c mod 16) # rest) = Some (of_char c)"
    using control_char_code [OF assms]
    by (simp add: decode_uXXXX_def z hex_val_digit_char)
  moreover have "\<not> (0xD800 \<le> (of_char c :: nat))"
    using control_char_code(4) [OF assms] by simp
  ultimately show ?thesis
    by (simp add: scan_u_def)
qed

lemma utf8_control: "c < CHR 0x20 \<Longrightarrow> utf8 (of_char c) = [c]"
  using control_char_code(4) [of c] by (simp add: utf8_def)

lemma escape_char_special:
  "escape_char quote = [backslash, quote]"
  "escape_char backslash = [backslash, backslash]"
  "escape_char (CHR 0x0A) = [backslash, CHR ''n'']"
  "escape_char (CHR 0x0D) = [backslash, CHR ''r'']"
  "escape_char (CHR 0x09) = [backslash, CHR ''t'']"
  "escape_char (CHR 0x08) = [backslash, CHR ''b'']"
  "escape_char (CHR 0x0C) = [backslash, CHR ''f'']"
  by (simp_all add: escape_char_def quote_def backslash_def)

lemma escape_char_control:
  assumes "c < CHR 0x20" and "c \<notin> {CHR 0x0A, CHR 0x0D, CHR 0x09, CHR 0x08, CHR 0x0C}"
  shows "escape_char c = [backslash, CHR ''u'', CHR ''0'', CHR ''0'',
                          digit_char (of_char c div 16), digit_char (of_char c mod 16)]"
proof -
  have "c \<noteq> quote" "c \<noteq> backslash"
    using assms(1) by (auto simp: quote_def backslash_def less_char_def)
  with assms show ?thesis
    by (simp add: escape_char_def)
qed

lemma escape_char_plain:
  assumes "\<not> c < CHR 0x20" and "c \<noteq> quote" and "c \<noteq> backslash"
  shows "escape_char c = [c]"
proof -
  have "c \<noteq> CHR 0x0A" "c \<noteq> CHR 0x0D" "c \<noteq> CHR 0x09" "c \<noteq> CHR 0x08" "c \<noteq> CHR 0x0C"
    using assms(1) by (auto simp: less_char_def)
  with assms show ?thesis
    by (simp add: escape_char_def)
qed

lemma unescape_special:
  "unescape quote = Some quote"
  "unescape backslash = Some backslash"
  "unescape CHR ''n'' = Some (CHR 0x0A)"
  "unescape CHR ''r'' = Some (CHR 0x0D)"
  "unescape CHR ''t'' = Some (CHR 0x09)"
  "unescape CHR ''b'' = Some (CHR 0x08)"
  "unescape CHR ''f'' = Some (CHR 0x0C)"
  by (simp_all add: unescape_def quote_def backslash_def)

lemma scan_unescape:
  assumes "unescape e = Some d" and "e \<noteq> CHR ''u''"
  shows "scan (Suc n) (backslash # e # rest)
           = (case scan n rest of None \<Rightarrow> None | Some (t, r) \<Rightarrow> Some (d # t, r))"
  using assms by (simp add: quote_def backslash_def split: option.splits)

lemma scan_plain:
  assumes "\<not> c < CHR 0x20" and "c \<noteq> quote" and "c \<noteq> backslash"
  shows "scan (Suc n) (c # rest)
           = (case scan n rest of None \<Rightarrow> None | Some (t, r) \<Rightarrow> Some (c # t, r))"
  using assms by (simp split: option.splits)

lemma scan_control:
  assumes "c < CHR 0x20"
  shows "scan (Suc n) (backslash # CHR ''u'' # CHR ''0'' # CHR ''0''
                        # digit_char (of_char c div 16) # digit_char (of_char c mod 16) # rest)
           = (case scan n rest of None \<Rightarrow> None | Some (t, r) \<Rightarrow> Some (c # t, r))"
  using assms
  by (simp add: scan_u_control utf8_control quote_def backslash_def split: option.splits)

lemma scan_escape_char:
  "scan (Suc n) (escape_char c @ rest)
     = (case scan n rest of None \<Rightarrow> None | Some (t, r) \<Rightarrow> Some (c # t, r))"
proof -
  consider (q) "c = quote" | (b) "c = backslash"
    | (n) "c = CHR 0x0A" | (r) "c = CHR 0x0D" | (t) "c = CHR 0x09" | (bs) "c = CHR 0x08"
    | (f) "c = CHR 0x0C"
    | (u) "c < CHR 0x20" "c \<notin> {CHR 0x0A, CHR 0x0D, CHR 0x09, CHR 0x08, CHR 0x0C}"
    | (p) "\<not> c < CHR 0x20" "c \<noteq> quote" "c \<noteq> backslash"
    by blast
  then show ?thesis
  proof cases
    case q
    show ?thesis
      unfolding q escape_char_special append_Cons append_Nil
      by (rule scan_unescape [OF unescape_special(1)]) (simp add: quote_def)
  next
    case b
    show ?thesis
      unfolding b escape_char_special append_Cons append_Nil
      by (rule scan_unescape [OF unescape_special(2)]) (simp add: backslash_def)
  next
    case n
    show ?thesis
      unfolding n escape_char_special append_Cons append_Nil
      by (rule scan_unescape [OF unescape_special(3)]) simp
  next
    case r
    show ?thesis
      unfolding r escape_char_special append_Cons append_Nil
      by (rule scan_unescape [OF unescape_special(4)]) simp
  next
    case t
    show ?thesis
      unfolding t escape_char_special append_Cons append_Nil
      by (rule scan_unescape [OF unescape_special(5)]) simp
  next
    case bs
    show ?thesis
      unfolding bs escape_char_special append_Cons append_Nil
      by (rule scan_unescape [OF unescape_special(6)]) simp
  next
    case f
    show ?thesis
      unfolding f escape_char_special append_Cons append_Nil
      by (rule scan_unescape [OF unescape_special(7)]) simp
  next
    case u
    show ?thesis
      unfolding escape_char_control [OF u] append_Cons append_Nil
      by (rule scan_control) (rule u(1))
  next
    case p
    show ?thesis
      unfolding escape_char_plain [OF p] append_Cons append_Nil
      by (rule scan_plain) (rule p)+
  qed
qed

lemma scan_escaped:
  "length s < n \<Longrightarrow> scan n (concat (map escape_char s) @ quote # rest) = Some (s, rest)"
proof (induction s arbitrary: n)
  case Nil
  then obtain m where "n = Suc m"
    by (cases n) auto
  then show ?case by simp
next
  case (Cons c s)
  then obtain m where n: "n = Suc m" and m: "length s < m"
    by (cases n) auto
  show ?case
    using Cons.IH [OF m] by (simp add: n scan_escape_char)
qed

lemma escape_char_nonempty: "escape_char c \<noteq> []"
  by (simp add: escape_char_def)

lemma length_escaped: "length s \<le> length (concat (map escape_char s))"
proof (induction s)
  case Nil
  show ?case by simp
next
  case (Cons c s)
  have "1 \<le> length (escape_char c)"
    using escape_char_nonempty [of c] by (cases "escape_char c") auto
  with Cons show ?case by simp
qed

lemma scanstring_encoded:
  "scanstring (concat (map escape_char s) @ quote # rest) = Some (s, rest)"
  unfolding scanstring_def
  by (rule scan_escaped) (use length_escaped [of s] in simp)

subsection \<open>Integers\<close>

text \<open>
  The decimal text of an integer has no leading zero, so the decoder takes all of its
  digits; it stops where the text after the number cannot continue it.
\<close>

lemma digit_char_decimal:
  assumes "k < 10"
  shows "isdigit (digit_char k)" and "digit_val (digit_char k) = k"
    and "digit_char k = CHR ''0'' \<longleftrightarrow> k = 0"
proof -
  have "\<forall>k \<in> set [0..<10]. isdigit (digit_char k) \<and> digit_val (digit_char k) = k
          \<and> (digit_char k = CHR ''0'' \<longleftrightarrow> k = 0)"
    by code_simp
  moreover have "k \<in> set [0..<10]"
    using assms by simp
  ultimately show "isdigit (digit_char k)" and "digit_val (digit_char k) = k"
    and "digit_char k = CHR ''0'' \<longleftrightarrow> k = 0"
    by blast+
qed

lemma str_of_nat_small: "n < 10 \<Longrightarrow> str_of_nat n = [digit_char n]"
  by (subst str_of_nat.simps) simp

lemma str_of_nat_large:
  "\<not> n < 10 \<Longrightarrow> str_of_nat n = str_of_nat (n div 10) @ [digit_char (n mod 10)]"
  by (subst str_of_nat.simps) simp

lemma str_of_nat_nonempty: "str_of_nat n \<noteq> []"
  by (cases "n < 10") (simp_all add: str_of_nat_small str_of_nat_large)

lemma str_of_nat_digits: "c \<in> set (str_of_nat n) \<Longrightarrow> isdigit c"
proof (induction n arbitrary: c rule: str_of_nat.induct)
  case (1 n)
  show ?case
  proof (cases "n < 10")
    case True
    with "1.prems" show ?thesis
      by (simp add: str_of_nat_small digit_char_decimal)
  next
    case False
    with "1.prems" "1.IH" show ?thesis
      by (auto simp: str_of_nat_large digit_char_decimal)
  qed
qed

lemma nat_of_digits_snoc: "nat_of_digits (ds @ [d]) = 10 * nat_of_digits ds + digit_val d"
  by (simp add: nat_of_digits_def)

lemma nat_of_digits_str_of_nat: "nat_of_digits (str_of_nat n) = n"
proof (induction n rule: str_of_nat.induct)
  case (1 n)
  show ?case
  proof (cases "n < 10")
    case True
    then show ?thesis
      by (simp add: str_of_nat_small nat_of_digits_def digit_char_decimal)
  next
    case False
    with "1.IH" show ?thesis
      by (simp add: str_of_nat_large nat_of_digits_snoc digit_char_decimal)
  qed
qed

lemma str_of_nat_leading_zero: "hd (str_of_nat n) = CHR ''0'' \<Longrightarrow> n = 0"
proof (induction n rule: str_of_nat.induct)
  case (1 n)
  show ?case
  proof (cases "n < 10")
    case True
    with "1.prems" show ?thesis
      by (simp add: str_of_nat_small digit_char_decimal)
  next
    case False
    with "1.prems" have "hd (str_of_nat (n div 10)) = CHR ''0''"
      by (simp add: str_of_nat_large str_of_nat_nonempty)
    with False "1.IH" have "n div 10 = 0"
      by simp
    with False show ?thesis
      by simp
  qed
qed

lemma str_of_nat_0: "str_of_nat 0 = ''0''"
  by (simp add: str_of_nat_small digit_char_def)

lemma takeWhile_str_of_nat:
  assumes "after_number rest"
  shows "takeWhile isdigit (str_of_nat n @ rest) = str_of_nat n"
proof -
  have "takeWhile isdigit rest = []"
    using assms by (cases rest) (auto simp: after_number_def)
  then show ?thesis
    by (simp add: takeWhile_append2 str_of_nat_digits)
qed

lemma hd_str_of_nat_not_minus: "hd (str_of_nat n) \<noteq> CHR ''-''"
proof -
  have "hd (str_of_nat n) \<in> set (str_of_nat n)"
    by (simp add: str_of_nat_nonempty)
  then have "isdigit (hd (str_of_nat n))"
    by (rule str_of_nat_digits)
  then show ?thesis
    by (auto simp: isdigit_def)
qed

lemma parse_number_str_of_int:
  assumes "after_number rest"
  shows "parse_number (str_of_int i @ rest) = Some (JInt i, rest)"
proof -
  define n where "n = nat \<bar>i\<bar>"
  define u where "u = str_of_nat n @ rest"
  have ne: "str_of_nat n \<noteq> []"
    by (rule str_of_nat_nonempty)
  have ds: "number_digits u = str_of_nat n"
  proof (cases "hd (str_of_nat n) = CHR ''0''")
    case True
    then have "n = 0"
      by (rule str_of_nat_leading_zero)
    then show ?thesis
      by (simp add: u_def str_of_nat_0 number_digits_def)
  next
    case False
    then show ?thesis
      using takeWhile_str_of_nat [OF assms, of n] ne by (simp add: u_def number_digits_def)
  qed
  have dr: "drop (length (str_of_nat n)) u = rest"
    by (simp add: u_def)
  have fl: "\<not> (rest \<noteq> [] \<and> (hd rest = CHR ''.'' \<or> hd rest = CHR ''e'' \<or> hd rest = CHR ''E''))"
    using assms by (auto simp: after_number_def)
  have val: "nat_of_digits (str_of_nat n) = n"
    by (rule nat_of_digits_str_of_nat)
  have hu: "u \<noteq> []" "hd u \<noteq> CHR ''-''"
    using ne hd_str_of_nat_not_minus [of n] by (simp_all add: u_def)
  show ?thesis
  proof (cases "i < 0")
    case True
    have s: "str_of_int i @ rest = CHR ''-'' # u"
      using True by (simp add: str_of_int_def u_def n_def)
    have "parse_number (CHR ''-'' # u) = Some (JInt (- int n), rest)"
      using ne fl by (simp add: parse_number_def Let_def ds dr val)
    with True show ?thesis
      by (simp add: s n_def)
  next
    case False
    have s: "str_of_int i @ rest = u"
      using False by (simp add: str_of_int_def u_def n_def)
    have "parse_number u = Some (JInt (int n), rest)"
      using ne fl hu by (simp add: parse_number_def Let_def ds dr val)
    with False show ?thesis
      by (simp add: s n_def)
  qed
qed

subsection \<open>Single steps of the decoder\<close>

text \<open>
  Whitespace before a value is skipped and a value never starts with whitespace; the
  first character of a text decides which branch of \<open>scan_once\<close> reads it.
\<close>

lemma skip_ws_newline_indent: "skip_ws (newline_indent level @ s) = skip_ws s"
  by (simp add: skip_ws_def newline_indent_def is_ws_def dropWhile_append)

lemma skip_ws_blank: "skip_ws (CHR '' '' # s) = skip_ws s"
  by (simp add: skip_ws_def is_ws_def)

lemma skip_ws_starts_value: "starts_value s \<Longrightarrow> skip_ws s = s"
  by (cases s) (simp_all add: skip_ws_def starts_value_def)

lemma skip_ws_punctuation:
  "skip_ws (CHR '','' # s) = CHR '','' # s"
  "skip_ws (CHR '']'' # s) = CHR '']'' # s"
  "skip_ws (CHR ''}'' # s) = CHR ''}'' # s"
  "skip_ws (CHR '':'' # s) = CHR '':'' # s"
  by (simp_all add: skip_ws_def is_ws_def)

lemma after_number_simps:
  "after_number []"
  "after_number (newline_indent level @ s)"
  "after_number (CHR '','' # s)"
  by (simp_all add: after_number_def newline_indent_def isdigit_def)

lemma hd_str_of_int: "isdigit (hd (str_of_int i)) \<or> hd (str_of_int i) = CHR ''-''"
proof (cases "i < 0")
  case True
  then show ?thesis by (simp add: str_of_int_def)
next
  case False
  have "hd (str_of_nat (nat i)) \<in> set (str_of_nat (nat i))"
    by (simp add: str_of_nat_nonempty)
  then have "isdigit (hd (str_of_nat (nat i)))"
    by (rule str_of_nat_digits)
  with False show ?thesis by (simp add: str_of_int_def)
qed

lemma str_of_int_nonempty: "str_of_int i \<noteq> []"
  by (simp add: str_of_int_def str_of_nat_nonempty)

lemma starts_value_number:
  assumes "s \<noteq> []" and "isdigit (hd s) \<or> hd s = CHR ''-''"
  shows "starts_value (s @ rest)"
  using assms by (cases s) (auto simp: starts_value_def is_ws_def isdigit_def)

lemma starts_value_iterencode: "starts_value (iterencode level j @ rest)"
proof (cases j)
  case (JInt i)
  then show ?thesis
    using starts_value_number [OF str_of_int_nonempty hd_str_of_int] by simp
qed (simp_all add: starts_value_def is_ws_def encode_basestring_def quote_def)

lemma iterencode_nonempty: "iterencode level j \<noteq> []"
  using starts_value_iterencode [of level j "[]"] by (simp add: starts_value_def)

lemma scan_once_number:
  assumes "s \<noteq> []" and "isdigit (hd s) \<or> hd s = CHR ''-''"
  shows "scan_once (Suc n) s = parse_number s"
proof -
  from assms obtain c cs where s: "s = c # cs"
    by (cases s) auto
  have c: "c \<noteq> quote" "c \<noteq> CHR ''{''" "c \<noteq> CHR ''[''" "c \<noteq> CHR ''n''" "c \<noteq> CHR ''t''"
    "c \<noteq> CHR ''f''"
    using assms(2) by (auto simp: s isdigit_def quote_def)
  have "take 4 s \<noteq> ''null''" "take 4 s \<noteq> ''true''" "take 5 s \<noteq> ''false''"
    using c by (simp_all add: s numeral_eq_Suc)
  with c show ?thesis
    by (simp add: s)
qed

lemma scan_once_atoms:
  "scan_once (Suc n) (''null'' @ rest) = Some (JNull, rest)"
  "scan_once (Suc n) (''true'' @ rest) = Some (JBool True, rest)"
  "scan_once (Suc n) (''false'' @ rest) = Some (JBool False, rest)"
  by (simp_all add: quote_def)

lemma scan_once_string:
  "scan_once (Suc n) (encode_basestring s @ rest) = Some (JStr s, rest)"
  by (simp add: encode_basestring_def scanstring_encoded)

lemma scan_once_int:
  assumes "after_number rest"
  shows "scan_once (Suc n) (str_of_int i @ rest) = Some (JInt i, rest)"
proof -
  have "scan_once (Suc n) (str_of_int i @ rest) = parse_number (str_of_int i @ rest)"
    using hd_str_of_int [of i] str_of_int_nonempty [of i]
    by (intro scan_once_number) simp_all
  then show ?thesis
    by (simp add: parse_number_str_of_int [OF assms])
qed

lemma scan_once_array:
  assumes "skip_ws cs = t" and "starts_value t"
  shows "scan_once (Suc n) (CHR ''['' # cs)
           = (case parse_array n t of None \<Rightarrow> None | Some (vs, r) \<Rightarrow> Some (JArr vs, r))"
  using assms by (cases t) (simp_all add: quote_def starts_value_def)

lemma scan_once_object:
  assumes "skip_ws cs = t" and "t \<noteq> []" and "hd t = quote"
  shows "scan_once (Suc n) (CHR ''{'' # cs)
           = (case parse_object n t of None \<Rightarrow> None | Some (ps, r) \<Rightarrow> Some (JObj (dict_of ps), r))"
  using assms by (cases t) (simp_all add: quote_def)

lemma parse_array_last:
  assumes "scan_once n s = Some (v, r)" and "skip_ws r = CHR '']'' # r'"
  shows "parse_array (Suc n) s = Some ([v], r')"
  using assms by simp

lemma parse_array_more:
  assumes "scan_once n s = Some (v, r)" and "skip_ws r = CHR '','' # r'"
    and "parse_array n (skip_ws r') = Some (vs, rest)"
  shows "parse_array (Suc n) s = Some (v # vs, rest)"
  using assms by simp

lemma parse_object_last:
  assumes "scanstring cs = Some (k, r)" and "skip_ws r = CHR '':'' # r1"
    and "scan_once n (skip_ws r1) = Some (v, r2)" and "skip_ws r2 = CHR ''}'' # r3"
  shows "parse_object (Suc n) (quote # cs) = Some ([(k, v)], r3)"
  using assms by simp

lemma parse_object_more:
  assumes "scanstring cs = Some (k, r)" and "skip_ws r = CHR '':'' # r1"
    and "scan_once n (skip_ws r1) = Some (v, r2)" and "skip_ws r2 = CHR '','' # r3"
    and "parse_object n (skip_ws r3) = Some (ps, rest)"
  shows "parse_object (Suc n) (quote # cs) = Some ((k, v) # ps, rest)"
  using assms by simp

lemma join_Cons: "xs \<noteq> [] \<Longrightarrow> join sep (x # xs) = x @ sep @ join sep xs"
  by (cases xs) simp_all

lemma starts_value_join:
  assumes "xs \<noteq> []"
  shows "starts_value (join sep (map (iterencode level) xs) @ rest)"
proof -
  from assms obtain x ys where xs: "xs = x # ys"
    by (cases xs) auto
  show ?thesis
  proof (cases "ys = []")
    case True
    then show ?thesis
      by (simp add: xs starts_value_iterencode)
  next
    case False
    then show ?thesis
      using starts_value_iterencode [of level x "sep @ join sep (map (iterencode level) ys) @ rest"]
      by (simp add: xs join_Cons)
  qed
qed

subsection \<open>Lists and dictionaries\<close>

text \<open>
  When each element is read back from its own text, so is the sequence of the elements
  separated by commas, up to the closing bracket; the same holds for the members of a
  dictionary.
\<close>

lemma parse_array_join:
  assumes "xs \<noteq> []"
    and "\<forall>x \<in> set xs. \<forall>n rest. fuel x \<le> n \<longrightarrow> after_number rest \<longrightarrow>
           scan_once n (iterencode (Suc level) x @ rest) = Some (x, rest)"
    and "sum_list (map (\<lambda>x. Suc (fuel x)) xs) \<le> n"
  shows "parse_array n
           (join (CHR '','' # newline_indent (Suc level)) (map (iterencode (Suc level)) xs)
              @ newline_indent level @ CHR '']'' # rest)
         = Some (xs, rest)"
  using assms
proof (induction xs arbitrary: n rule: list_nonempty_induct)
  case (single x)
  then obtain m where n: "n = Suc m" and m: "fuel x \<le> m"
    by (cases n) auto
  have "scan_once m (iterencode (Suc level) x @ newline_indent level @ CHR '']'' # rest)
          = Some (x, newline_indent level @ CHR '']'' # rest)"
    using single.prems(1) m by (simp add: after_number_simps)
  then show ?case
    unfolding n
    by (simp add: skip_ws_newline_indent skip_ws_punctuation)
next
  case (cons x xs)
  let ?sep = "CHR '','' # newline_indent (Suc level)"
  let ?tail = "join ?sep (map (iterencode (Suc level)) xs) @ newline_indent level @ CHR '']'' # rest"
  from cons.prems(2) obtain m where n: "n = Suc m" and m: "fuel x \<le> m"
    and ms: "sum_list (map (\<lambda>x. Suc (fuel x)) xs) \<le> m"
    by (cases n) auto
  have enc: "join ?sep (map (iterencode (Suc level)) (x # xs)) @ newline_indent level @ CHR '']'' # rest
              = iterencode (Suc level) x @ CHR '','' # (newline_indent (Suc level) @ ?tail)"
    using cons.hyps by (simp add: join_Cons)
  have 1: "scan_once m (iterencode (Suc level) x @ CHR '','' # (newline_indent (Suc level) @ ?tail))
          = Some (x, CHR '','' # (newline_indent (Suc level) @ ?tail))"
    using cons.prems(1) m by (simp add: after_number_simps)
  have 2: "skip_ws (newline_indent (Suc level) @ ?tail) = ?tail"
    using starts_value_join [OF cons.hyps, of ?sep "Suc level" "newline_indent level @ CHR '']'' # rest"]
    by (simp add: skip_ws_newline_indent skip_ws_starts_value)
  have 3: "parse_array m ?tail = Some (xs, rest)"
    using cons.prems(1) ms by (intro cons.IH) simp_all
  show ?case
    unfolding n enc
    by (rule parse_array_more [OF 1 skip_ws_punctuation(1)]) (simp add: 2 3)
qed

lemma starts_with_quote:
  "encode_basestring k @ s \<noteq> []" "hd (encode_basestring k @ s) = quote"
  by (simp_all add: encode_basestring_def)

lemma starts_value_quote: "starts_value (encode_basestring k @ s)"
  by (simp add: encode_basestring_def starts_value_def is_ws_def quote_def)

lemma encode_member_eq:
  "(\<lambda>(k, v). encode_basestring k @ '': '' @ iterencode level v) = encode_member level"
  by (auto simp: encode_member_def fun_eq_iff)

lemma join_members_head:
  assumes "kvs \<noteq> []"
  shows "\<exists>k s. join sep (map (encode_member level) kvs) @ rest = encode_basestring k @ s"
proof -
  from assms obtain kv ys where kvs: "kvs = kv # ys"
    by (cases kvs) auto
  show ?thesis
  proof (cases "ys = []")
    case True
    then show ?thesis
      by (auto simp: kvs encode_member_def)
  next
    case False
    then show ?thesis
      by (auto simp: kvs encode_member_def join_Cons)
  qed
qed

lemma parse_object_member:
  assumes v: "\<forall>n rest. fuel v \<le> n \<longrightarrow> after_number rest \<longrightarrow>
           scan_once n (iterencode level v @ rest) = Some (v, rest)"
    and m: "fuel v \<le> m" and a: "after_number r2"
  shows "scanstring (tl (encode_member level (k, v) @ r2)) = Some (k, CHR '':'' # CHR '' '' # iterencode level v @ r2)"
    and "scan_once m (skip_ws (CHR '' '' # iterencode level v @ r2)) = Some (v, r2)"
proof -
  show "scanstring (tl (encode_member level (k, v) @ r2))
          = Some (k, CHR '':'' # CHR '' '' # iterencode level v @ r2)"
    using scanstring_encoded [of k "CHR '':'' # CHR '' '' # iterencode level v @ r2"]
    by (simp add: encode_member_def encode_basestring_def)
  have "skip_ws (CHR '' '' # iterencode level v @ r2) = iterencode level v @ r2"
    by (simp add: skip_ws_blank skip_ws_starts_value starts_value_iterencode)
  with v m a show "scan_once m (skip_ws (CHR '' '' # iterencode level v @ r2)) = Some (v, r2)"
    by simp
qed

lemma encode_member_quote: "encode_member level kv @ s = quote # tl (encode_member level kv @ s)"
  by (simp add: encode_member_def encode_basestring_def)

lemma parse_object_join:
  assumes "kvs \<noteq> []"
    and "\<forall>kv \<in> set kvs. \<forall>n rest. fuel (snd kv) \<le> n \<longrightarrow> after_number rest \<longrightarrow>
           scan_once n (iterencode (Suc level) (snd kv) @ rest) = Some (snd kv, rest)"
    and "sum_list (map (\<lambda>kv. Suc (fuel (snd kv))) kvs) \<le> n"
  shows "parse_object n
           (join (CHR '','' # newline_indent (Suc level)) (map (encode_member (Suc level)) kvs)
              @ newline_indent level @ CHR ''}'' # rest)
         = Some (kvs, rest)"
  using assms
proof (induction kvs arbitrary: n rule: list_nonempty_induct)
  case (single kv)
  obtain k v where kv: "kv = (k, v)"
    by (cases kv)
  from single obtain m where n: "n = Suc m" and m: "fuel v \<le> m"
    by (cases n) (auto simp: kv)
  let ?r2 = "newline_indent level @ CHR ''}'' # rest"
  have v: "\<forall>n rest. fuel v \<le> n \<longrightarrow> after_number rest \<longrightarrow>
           scan_once n (iterencode (Suc level) v @ rest) = Some (v, rest)"
    using single.prems(1) by (simp add: kv)
  have a: "after_number ?r2"
    by (rule after_number_simps)
  have "parse_object (Suc m) (quote # tl (encode_member (Suc level) (k, v) @ ?r2)) = Some ([(k, v)], rest)"
    by (rule parse_object_last [OF parse_object_member(1) [OF v m a] skip_ws_punctuation(4)
          parse_object_member(2) [OF v m a]])
       (simp add: skip_ws_newline_indent skip_ws_punctuation)
  then show ?case
    unfolding n kv by (simp only: encode_member_quote [symmetric] list.map join.simps)
next
  case (cons kv kvs)
  obtain k v where kv: "kv = (k, v)"
    by (cases kv)
  let ?sep = "CHR '','' # newline_indent (Suc level)"
  let ?tail = "join ?sep (map (encode_member (Suc level)) kvs) @ newline_indent level @ CHR ''}'' # rest"
  let ?r2 = "CHR '','' # (newline_indent (Suc level) @ ?tail)"
  from cons.prems(2) obtain m where n: "n = Suc m" and m: "fuel v \<le> m"
    and ms: "sum_list (map (\<lambda>kv. Suc (fuel (snd kv))) kvs) \<le> m"
    by (cases n) (auto simp: kv)
  have v: "\<forall>n rest. fuel v \<le> n \<longrightarrow> after_number rest \<longrightarrow>
           scan_once n (iterencode (Suc level) v @ rest) = Some (v, rest)"
    using cons.prems(1) by (simp add: kv)
  have a: "after_number ?r2"
    by (rule after_number_simps)
  have enc: "join ?sep (map (encode_member (Suc level)) ((k, v) # kvs)) @ newline_indent level @ CHR ''}'' # rest
              = encode_member (Suc level) (k, v) @ ?r2"
    using cons.hyps by (simp add: join_Cons)
  obtain k' s where "?tail = encode_basestring k' @ s"
    using join_members_head [OF cons.hyps] by blast
  then have "starts_value ?tail"
    by (simp only: starts_value_quote)
  then have 2: "skip_ws (newline_indent (Suc level) @ ?tail) = ?tail"
    by (simp add: skip_ws_newline_indent skip_ws_starts_value)
  have 3: "parse_object m ?tail = Some (kvs, rest)"
    using cons.prems(1) ms by (intro cons.IH) simp_all
  have "parse_object (Suc m) (quote # tl (encode_member (Suc level) (k, v) @ ?r2)) = Some ((k, v) # kvs, rest)"
    by (rule parse_object_more [OF parse_object_member(1) [OF v m a] skip_ws_punctuation(4)
          parse_object_member(2) [OF v m a] skip_ws_punctuation(1)])
       (simp add: 2 3)
  then show ?case
    unfolding n kv by (simp only: encode_member_quote [symmetric] enc)
qed

subsection \<open>The round trip\<close>

text \<open>
  A dictionary whose keys are distinct is built back key by key in the order of the text.
  The bound on the steps that \<open>json_loads\<close> starts with is enough, because every value
  takes at least as many characters as it needs steps.
\<close>

lemma dict_set_new: "k \<notin> fst ` set d \<Longrightarrow> dict_set d k v = d @ [(k, v)]"
  by (induction d) auto

lemma foldl_dict_set:
  "distinct (map fst (d @ kvs)) \<Longrightarrow> foldl (\<lambda>d (k, v). dict_set d k v) d kvs = d @ kvs"
proof (induction kvs arbitrary: d)
  case Nil
  show ?case by simp
next
  case (Cons kv kvs)
  obtain k v where kv: "kv = (k, v)"
    by (cases kv)
  have "k \<notin> fst ` set d"
    using Cons.prems by (auto simp: kv)
  then have "dict_set d k v = d @ [(k, v)]"
    by (rule dict_set_new)
  moreover have "distinct (map fst ((d @ [(k, v)]) @ kvs))"
    using Cons.prems by (simp add: kv)
  ultimately show ?case
    using Cons.IH [of "d @ [(k, v)]"] by (simp add: kv)
qed

lemma dict_of_distinct: "distinct (map fst kvs) \<Longrightarrow> dict_of kvs = kvs"
  using foldl_dict_set [of "[]" kvs] by (simp add: dict_of_def)

lemma scan_once_iterencode:
  "wf_json j \<Longrightarrow> fuel j \<le> n \<Longrightarrow> after_number rest \<Longrightarrow>
   scan_once n (iterencode level j @ rest) = Some (j, rest)"
proof (induction j arbitrary: n level rest)
  case JNull
  then obtain m where "n = Suc m" by (cases n) auto
  then show ?case by (simp add: quote_def)
next
  case (JBool b)
  then obtain m where "n = Suc m" by (cases n) auto
  then show ?case by (cases b) (simp_all add: quote_def)
next
  case (JInt i)
  then obtain m where "n = Suc m" by (cases n) auto
  with JInt.prems(3) show ?case by (simp add: scan_once_int del: scan_once.simps)
next
  case (JStr s)
  then obtain m where "n = Suc m" by (cases n) auto
  then show ?case by (simp add: scan_once_string del: scan_once.simps)
next
  case (JArr xs)
  from JArr.prems(2) obtain m where n: "n = Suc m"
    and m: "sum_list (map (\<lambda>x. Suc (fuel x)) xs) \<le> m"
    by (cases n) auto
  show ?case
  proof (cases "xs = []")
    case True
    then show ?thesis
      by (simp add: n quote_def skip_ws_def is_ws_def)
  next
    case False
    let ?t = "join (CHR '','' # newline_indent (Suc level)) (map (iterencode (Suc level)) xs)
                @ newline_indent level @ CHR '']'' # rest"
    have ih: "\<forall>x \<in> set xs. \<forall>n rest. fuel x \<le> n \<longrightarrow> after_number rest \<longrightarrow>
           scan_once n (iterencode (Suc level) x @ rest) = Some (x, rest)"
      using JArr.IH JArr.prems(1) by simp
    have enc: "iterencode level (JArr xs) @ rest = CHR ''['' # (newline_indent (Suc level) @ ?t)"
      using False by simp
    have sv: "starts_value ?t"
      by (rule starts_value_join [OF False])
    then have sk: "skip_ws (newline_indent (Suc level) @ ?t) = ?t"
      by (simp add: skip_ws_newline_indent skip_ws_starts_value)
    have "parse_array m ?t = Some (xs, rest)"
      by (rule parse_array_join [OF False ih m])
    then show ?thesis
      unfolding n enc by (simp add: scan_once_array [OF sk sv] del: scan_once.simps)
  qed
next
  case (JObj kvs)
  from JObj.prems(2) obtain m where n: "n = Suc m"
    and m: "sum_list (map (\<lambda>kv. Suc (fuel (snd kv))) kvs) \<le> m"
    by (cases n) auto
  show ?case
  proof (cases "kvs = []")
    case True
    then show ?thesis
      by (simp add: n quote_def skip_ws_def is_ws_def dict_of_def)
  next
    case False
    let ?t = "join (CHR '','' # newline_indent (Suc level)) (map (encode_member (Suc level)) kvs)
                @ newline_indent level @ CHR ''}'' # rest"
    have ih: "\<forall>kv \<in> set kvs. \<forall>n rest. fuel (snd kv) \<le> n \<longrightarrow> after_number rest \<longrightarrow>
           scan_once n (iterencode (Suc level) (snd kv) @ rest) = Some (snd kv, rest)"
    proof (intro ballI allI impI)
      fix kv n rest
      assume kv: "kv \<in> set kvs" and f: "fuel (snd kv) \<le> n" and a: "after_number rest"
      have "snd kv \<in> Basic_BNFs.snds kv"
        by (cases kv) simp
      moreover have "wf_json (snd kv)"
        using JObj.prems(1) kv by simp
      ultimately show "scan_once n (iterencode (Suc level) (snd kv) @ rest) = Some (snd kv, rest)"
        using JObj.IH [OF kv] f a by blast
    qed
    have mem: "(\<lambda>(k, v). encode_basestring k @ CHR '':'' # CHR '' '' # iterencode (Suc level) v)
        = encode_member (Suc level)"
      by (auto simp: fun_eq_iff encode_member_def)
    have enc: "iterencode level (JObj kvs) @ rest = CHR ''{'' # (newline_indent (Suc level) @ ?t)"
      using False by (simp add: mem)
    obtain k s where ks: "?t = encode_basestring k @ s"
      using join_members_head [OF False] by blast
    have sk: "skip_ws (newline_indent (Suc level) @ ?t) = ?t"
      by (simp only: ks skip_ws_newline_indent skip_ws_starts_value [OF starts_value_quote])
    have q: "?t \<noteq> []" "hd ?t = quote"
      unfolding ks by (rule starts_with_quote)+
    have d: "dict_of kvs = kvs"
      using JObj.prems(1) by (simp add: dict_of_distinct)
    have "parse_object m ?t = Some (kvs, rest)"
      by (rule parse_object_join [OF False ih m])
    then show ?thesis
      unfolding n enc by (simp add: scan_once_object [OF sk q] d del: scan_once.simps)
  qed
qed

lemma length_join:
  "ss \<noteq> [] \<Longrightarrow> sep \<noteq> [] \<Longrightarrow>
   sum_list (map (\<lambda>s. Suc (length s)) ss) \<le> Suc (length (join sep ss))"
proof (induction sep ss rule: join.induct)
  case (3 sep x y ys)
  then have "0 < length sep" by simp
  with 3 show ?case by (cases "length sep") simp_all
qed simp_all

lemma sum_list_Suc_mono:
  "\<forall>x \<in> set xs. f x \<le> g x \<Longrightarrow>
   sum_list (map (\<lambda>x. Suc (f x)) xs) \<le> sum_list (map (\<lambda>x. Suc (g x)) xs)"
  by (induction xs) auto

lemma fuel_le_length: "fuel j \<le> length (iterencode level j)"
proof (induction j arbitrary: level)
  case (JInt i)
  show ?case
    using str_of_int_nonempty [of i] by (cases "str_of_int i") simp_all
next
  case (JStr s)
  show ?case by (simp add: encode_basestring_def)
next
  case (JArr xs)
  show ?case
  proof (cases "xs = []")
    case True
    then show ?thesis by simp
  next
    case False
    let ?sep = "CHR '','' # newline_indent (Suc level)"
    have "sum_list (map (\<lambda>x. Suc (fuel x)) xs)
            \<le> sum_list (map (\<lambda>x. Suc (length (iterencode (Suc level) x))) xs)"
      by (rule sum_list_Suc_mono) (simp add: JArr.IH)
    also have "\<dots> = sum_list (map (\<lambda>s. Suc (length s)) (map (iterencode (Suc level)) xs))"
      by (simp add: comp_def)
    also have "\<dots> \<le> Suc (length (join ?sep (map (iterencode (Suc level)) xs)))"
      using False by (intro length_join) simp_all
    finally show ?thesis
      using False by simp
  qed
next
  case (JObj kvs)
  show ?case
  proof (cases "kvs = []")
    case True
    then show ?thesis by simp
  next
    case False
    let ?sep = "CHR '','' # newline_indent (Suc level)"
    let ?enc = "\<lambda>(k, v). encode_basestring k @ '': '' @ iterencode (Suc level) v"
    have "\<forall>kv \<in> set kvs. fuel (snd kv) \<le> length (?enc kv)"
    proof
      fix kv
      assume kv: "kv \<in> set kvs"
      have "snd kv \<in> Basic_BNFs.snds kv"
        by (cases kv) simp
      then have "fuel (snd kv) \<le> length (iterencode (Suc level) (snd kv))"
        using JObj.IH [OF kv] by blast
      then show "fuel (snd kv) \<le> length (?enc kv)"
        by (cases kv) simp
    qed
    then have "sum_list (map (\<lambda>kv. Suc (fuel (snd kv))) kvs)
            \<le> sum_list (map (\<lambda>kv. Suc (length (?enc kv))) kvs)"
      by (rule sum_list_Suc_mono)
    also have "\<dots> = sum_list (map (\<lambda>s. Suc (length s)) (map ?enc kvs))"
      by (simp add: comp_def)
    also have "\<dots> \<le> Suc (length (join ?sep (map ?enc kvs)))"
      using False by (intro length_join) simp_all
    finally show ?thesis
      using False by simp
  qed
qed simp_all

lemma json_loads_dumps: "wf_json j \<Longrightarrow> json_loads (json_dumps j) = Some j"
proof -
  assume wf: "wf_json j"
  have "fuel j \<le> Suc (length (iterencode 0 j))"
    using fuel_le_length [of j 0] by simp
  then have "scan_once (Suc (length (iterencode 0 j))) (iterencode 0 j @ []) = Some (j, [])"
    using wf by (intro scan_once_iterencode) (simp_all add: after_number_simps)
  moreover have "skip_ws (iterencode 0 j) = iterencode 0 j"
    using starts_value_iterencode [of 0 j "[]"] by (simp add: skip_ws_starts_value)
  ultimately show ?thesis
    by (simp add: json_loads_def json_dumps_def skip_ws_def)
qed

subsection \<open>Writing the snapshot and reading it back\<close>

text \<open>
  A record is a Python dictionary, so its keys are distinct; the document of a snapshot
  is then one the round trip applies to. Different records give different documents.
\<close>

lemma wf_json_of_app_info: "distinct (map fst app_info) \<Longrightarrow> wf_json (json_of_app_info app_info)"
  by (simp add: json_of_app_info_def comp_def case_prod_beta)

lemma wf_snapshot:
  "\<forall>app_info \<in> set app_infos. distinct (map fst app_info) \<Longrightarrow> wf_json (snapshot ts app_infos)"
  by (simp add: snapshot_def wf_json_of_app_info)

lemma json_of_app_info_inj: "json_of_app_info r = json_of_app_info r' \<Longrightarrow> r = r'"
proof -
  have "inj (\<lambda>(k :: string, v). (k, JStr v))"
    by (auto simp: inj_on_def)
  then show "json_of_app_info r = json_of_app_info r' \<Longrightarrow> r = r'"
    by (simp add: json_of_app_info_def inj_map_eq_map)
qed

lemma concat_escape_plain:
  "\<forall>c \<in> set s. CHR 0x20 \<le> c \<and> c \<noteq> quote \<and> c \<noteq> backslash \<Longrightarrow> concat (map escape_char s) = s"
proof (induction s)
  case Nil
  show ?case by simp
next
  case (Cons c s)
  then have "\<not> c < CHR 0x20" "c \<noteq> quote" "c \<noteq> backslash"
    by (simp_all add: not_less)
  then have "escape_char c = [c]"
    by (rule escape_char_plain)
  with Cons show ?case by simp
qed

text \<open>
  Claim C7. For every list of records (each a dictionary, so with distinct keys) and every
  folder in which the file can be opened, \<open>save_to_json\<close> returns, and reading the file it
  wrote back with the loader's \<open>json.load\<close> gives the document whose \<open>timestamp\<close> is the
  time of the call and whose \<open>apps\<close> are the records of the argument, field for field and
  in the order the caller supplied them: the writer neither sorts nor changes them.
  Text is written literally: a string in which every character is at or above the blank
  and is neither the double quote nor the backslash (every byte of non-ASCII UTF-8 text
  is such a character) stands in the file between two double quotes, unescaped.
\<close>

theorem save_to_json_round_trip:
  assumes "\<forall>app_info \<in> set app_infos. distinct (map fst app_info)"
      and "can_open (snapshot_path now folder_name)"
  shows "(\<exists>fs'. save_to_json now w t can_open app_infos folder_name fs = Inr fs'
            \<and> read_json fs' (snapshot_path now folder_name)
                = Inr (snapshot (get_taiwan_time w t) app_infos))
         \<and> (\<forall>s. (\<forall>c \<in> set s. CHR 0x20 \<le> c \<and> c \<noteq> quote \<and> c \<noteq> backslash)
                \<longrightarrow> encode_basestring s = quote # s @ [quote])"
proof -
  have "wf_json (snapshot (get_taiwan_time w t) app_infos)"
    using assms(1) by (rule wf_snapshot)
  then have "json_loads (json_dumps (snapshot (get_taiwan_time w t) app_infos))
               = Some (snapshot (get_taiwan_time w t) app_infos)"
    by (rule json_loads_dumps)
  then show ?thesis
    using assms(2) by (simp add: save_to_json_def Let_def read_json_def encode_basestring_def concat_escape_plain)
qed

text \<open>
  Two records in the folder \<open>app_store_ranking\<close>, the first a sentinel record whose name is
  the two Chinese characters of \<open>unknown_name\<close> and whose error message contains double
  quotes: the file read back gives both records in this order, and the name is written
  as its six bytes between double quotes.
\<close>

theorem save_to_json_round_trip_witness:
  "list_all (\<lambda>app_info. distinct (map fst app_info)) [app_unknown, app_a]
   \<and> (\<exists>fs'. save_to_json 63844846200000042 flaky 0 (\<lambda>path. True) [app_unknown, app_a] DATA_DIR no_files
               = Inr fs'
          \<and> read_json fs' (snapshot_path 63844846200000042 DATA_DIR)
              = Inr (snapshot (get_taiwan_time flaky 0) [app_unknown, app_a]))
   \<and> encode_basestring unknown_name = quote # unknown_name @ [quote]"
proof -
  have d: "\<forall>app_info \<in> set [app_unknown, app_a]. distinct (map fst app_info)"
    by code_simp
  have p: "\<forall>c \<in> set unknown_name. CHR 0x20 \<le> c \<and> c \<noteq> quote \<and> c \<noteq> backslash"
    by code_simp
  show ?thesis
    using save_to_json_round_trip [of "[app_unknown, app_a]" "\<lambda>path. True" 63844846200000042
        DATA_DIR flaky 0 no_files] d p
    by (simp only: list_all_iff simp_thms)
qed

end
